theory Spec2Isabelle
  imports Main "HOL-Library.Word"
begin

section \<open>The seeder script \<^verbatim>\<open>server/scripts/seed_fake_data.py\<close>\<close>

text \<open>
  The script opens an SQLite file, raises the counters \<^verbatim>\<open>user\<close> and \<^verbatim>\<open>post\<close>
  to the largest sequence number of their tables, inserts generated users,
  accounts, posts and likes inside one transaction, and prints a summary.

  The embedding follows the script function by function. What lies outside the
  script is an input of the model:
  \<^item> the database is a record of its tables; a counter name is the key of its
    row, so the \<^verbatim>\<open>counters\<close> table is a map from names to values;
  \<^item> Python's integers are unbounded, an SQLite \<^verbatim>\<open>INTEGER\<close> has 64 bits. A \<^verbatim>\<open>seq\<close>
    column holds \<^verbatim>\<open>INTEGER\<close> values, kept as 64-bit words and read as signed
    numbers. An integer parameter of a statement that does not fit raises
    \<^verbatim>\<open>OverflowError\<close> when it is bound, before the statement runs. The value of a
    counter is an integer: inside the 64-bit range it is an \<^verbatim>\<open>INTEGER\<close>, outside
    that range it stands for the \<^verbatim>\<open>REAL\<close> of that magnitude, which is what
    \<^verbatim>\<open>value + 1\<close> leaves in the row once the largest \<^verbatim>\<open>INTEGER\<close> is passed;
  \<^item> the schema is not part of the script: the constraints it puts on an
    inserted row are four predicates, and an insert that violates one raises
    \<^verbatim>\<open>IntegrityError\<close> and leaves the table as it was;
  \<^item> the pseudo-random generator of the \<^verbatim>\<open>random\<close> module is a state type
    \<open>'g\<close> with its seeding function and its bounded draw;
  \<^item> the wall clock is read three times (the run identifier and the two base
    times); the readings are inputs. A \<^verbatim>\<open>datetime\<close> is its number of whole
    seconds since the epoch in UTC: \<^verbatim>\<open>strftime\<close> drops the microseconds, and
    the offsets subtracted are whole seconds;
  \<^item> \<^verbatim>\<open>sqlite3.connect\<close> on an existing path is taken to succeed, and
    \<^verbatim>\<open>PRAGMA foreign_keys = ON\<close> only decides which constraints the schema
    checks, so it is part of the four predicates.
\<close>

subsection \<open>Errors\<close>

datatype error = IndexError | IntegrityError | OperationalError | OverflowError | TypeError

subsection \<open>64-bit integers\<close>

text \<open>The values of an SQLite \<^verbatim>\<open>INTEGER\<close>, and the Python integers that can be bound to
  one.\<close>

type_synonym sqlite_integer = "64 word"

definition fits_int64 :: "int \<Rightarrow> bool" where
  "fits_int64 i \<longleftrightarrow> - (2 ^ 63) \<le> i \<and> i < 2 ^ 63"

subsection \<open>Tables\<close>

text \<open>The text \<^verbatim>\<open>%Y-%m-%dT%H:%M:%SZ\<close> of an instant, kept as the instant it renders.\<close>

datatype timestamp = Rfc3339 int

record user_row =
  user_seq :: sqlite_integer
  user_id :: string
  user_nickname :: string
  user_avatar :: string
  user_cover :: string
  user_bio :: string
  user_created_at :: timestamp

record account_row =
  account_name :: string
  account_user_id :: string
  account_password_hash :: string

record board_row =
  board_seq :: sqlite_integer
  board_id :: string

record post_row =
  post_seq :: sqlite_integer
  post_id :: string
  post_board_id :: string
  post_author_id :: string
  post_title :: string
  post_content :: string
  post_content_json :: string
  post_tags :: string
  post_attachments :: string
  post_created_at :: timestamp
  post_deleted_at :: "timestamp option"

record vote_row =
  vote_post_id :: string
  vote_user_id :: string
  vote_value :: int
  vote_created_at :: timestamp

record db =
  counters :: "string \<rightharpoonup> int"
  users :: "user_row list"
  accounts :: "account_row list"
  boards :: "board_row list"
  posts :: "post_row list"
  post_votes :: "vote_row list"

text \<open>The rows that the four \<^verbatim>\<open>INSERT\<close> statements of the script build from their
  parameters: \<^verbatim>\<open>VALUES(?, ?, ?, '', '', '', ?)\<close> for a user, three parameters for an
  account, \<^verbatim>\<open>VALUES(?, ?, ?, ?, ?, ?, ?, ?, ?, ?, NULL)\<close> for a post, four parameters for a
  like.\<close>

definition users_values :: "int \<Rightarrow> string \<Rightarrow> string \<Rightarrow> timestamp \<Rightarrow> user_row" where
  "users_values seq uid nickname created_at =
     \<lparr>user_seq = word_of_int seq, user_id = uid, user_nickname = nickname, user_avatar = [],
      user_cover = [], user_bio = [], user_created_at = created_at\<rparr>"

definition accounts_values :: "string \<Rightarrow> string \<Rightarrow> string \<Rightarrow> account_row" where
  "accounts_values account uid password_hash =
     \<lparr>account_name = account, account_user_id = uid, account_password_hash = password_hash\<rparr>"

definition posts_values ::
  "int \<Rightarrow> string \<Rightarrow> string \<Rightarrow> string \<Rightarrow> string \<Rightarrow> string \<Rightarrow> string \<Rightarrow> string \<Rightarrow> string
     \<Rightarrow> timestamp \<Rightarrow> post_row"
where
  "posts_values seq pid bid author title content content_json tags attachments created_at =
     \<lparr>post_seq = word_of_int seq, post_id = pid, post_board_id = bid, post_author_id = author,
      post_title = title, post_content = content, post_content_json = content_json,
      post_tags = tags, post_attachments = attachments, post_created_at = created_at,
      post_deleted_at = None\<rparr>"

definition post_votes_values :: "string \<Rightarrow> string \<Rightarrow> int \<Rightarrow> timestamp \<Rightarrow> vote_row" where
  "post_votes_values pid uid v created_at =
     \<lparr>vote_post_id = pid, vote_user_id = uid, vote_value = v, vote_created_at = created_at\<rparr>"

text \<open>The constraints of the schema on a row about to be inserted. The \<^verbatim>\<open>seq\<close> of a
  user or of a post is bound first, and must fit.\<close>

record schema =
  users_ok :: "db \<Rightarrow> user_row \<Rightarrow> bool"
  accounts_ok :: "db \<Rightarrow> account_row \<Rightarrow> bool"
  posts_ok :: "db \<Rightarrow> post_row \<Rightarrow> bool"
  post_votes_ok :: "db \<Rightarrow> vote_row \<Rightarrow> bool"

definition insert_users ::
  "schema \<Rightarrow> int \<Rightarrow> string \<Rightarrow> string \<Rightarrow> timestamp \<Rightarrow> db \<Rightarrow> error + db"
where
  "insert_users sch seq uid nickname created_at d =
     (if \<not> fits_int64 seq then Inl OverflowError
      else if users_ok sch d (users_values seq uid nickname created_at)
      then Inr (d\<lparr>users := users d @ [users_values seq uid nickname created_at]\<rparr>)
      else Inl IntegrityError)"

definition insert_accounts :: "schema \<Rightarrow> account_row \<Rightarrow> db \<Rightarrow> error + db" where
  "insert_accounts sch row d =
     (if accounts_ok sch d row then Inr (d\<lparr>accounts := accounts d @ [row]\<rparr>)
      else Inl IntegrityError)"

definition insert_posts ::
  "schema \<Rightarrow> int \<Rightarrow> string \<Rightarrow> string \<Rightarrow> string \<Rightarrow> string \<Rightarrow> string \<Rightarrow> string \<Rightarrow> string
     \<Rightarrow> string \<Rightarrow> timestamp \<Rightarrow> db \<Rightarrow> error + db"
where
  "insert_posts sch seq pid bid author title content content_json tags attachments created_at d =
     (if \<not> fits_int64 seq then Inl OverflowError
      else if posts_ok sch d
                (posts_values seq pid bid author title content content_json tags attachments
                   created_at)
      then Inr (d\<lparr>posts := posts d
                  @ [posts_values seq pid bid author title content content_json tags
                       attachments created_at]\<rparr>)
      else Inl IntegrityError)"

definition insert_post_votes :: "schema \<Rightarrow> vote_row \<Rightarrow> db \<Rightarrow> error + db" where
  "insert_post_votes sch row d =
     (if post_votes_ok sch d row then Inr (d\<lparr>post_votes := post_votes d @ [row]\<rparr>)
      else Inl IntegrityError)"

subsection \<open>The connection, the file and the generator\<close>

text \<open>
  \<open>disk\<close> is the committed content of the file, \<open>conn\<close> what the connection
  sees: every statement works on \<open>conn\<close>; a commit copies it to \<open>disk\<close>, a
  rollback restores it from there.
\<close>

record 'g world =
  disk :: db
  conn :: db
  rng :: 'g

record 'g random_lib =
  random_seed :: "int \<Rightarrow> 'g"
  randbelow :: "'g \<Rightarrow> nat \<Rightarrow> nat \<times> 'g"

text \<open>\<^verbatim>\<open>random.randint(a, b)\<close> is \<^verbatim>\<open>a + _randbelow(b - a + 1)\<close>; both calls of the
  script have a constant, non-empty range.\<close>

definition randint :: "'g random_lib \<Rightarrow> int \<Rightarrow> int \<Rightarrow> 'g \<Rightarrow> int \<times> 'g" where
  "randint lib a b g = (case randbelow lib g (nat (b - a + 1)) of (r, g') \<Rightarrow> (a + int r, g'))"

text \<open>\<^verbatim>\<open>random.choice(seq)\<close> raises \<^verbatim>\<open>IndexError\<close> on an empty sequence before it
  draws, and is \<^verbatim>\<open>seq[_randbelow(len(seq))]\<close> otherwise.\<close>

definition choice :: "'g random_lib \<Rightarrow> 'a list \<Rightarrow> 'g \<Rightarrow> (error + 'a) \<times> 'g" where
  "choice lib xs g =
     (if xs = [] then (Inl IndexError, g)
      else (case randbelow lib g (length xs) of
              (r, g') \<Rightarrow> if r < length xs then (Inr (xs ! r), g') else (Inl IndexError, g')))"

subsection \<open>Formatting integers\<close>

definition digit_char :: "nat \<Rightarrow> char" where
  "digit_char n = ''0123456789'' ! n"

fun digits :: "nat \<Rightarrow> string" where
  "digits n = (if n < 10 then [digit_char n] else digits (n div 10) @ [digit_char (n mod 10)])"

declare digits.simps [simp del]

text \<open>\<^verbatim>\<open>str(n)\<close>, as the f-string \<^verbatim>\<open>{seq}\<close> renders an integer.\<close>

definition str_int :: "int \<Rightarrow> string" where
  "str_int i = (if i < 0 then CHR ''-'' # digits (nat (- i)) else digits (nat i))"

text \<open>The format \<^verbatim>\<open>{n:03d}\<close>: at least three digits, padded with zeros on the left.\<close>

definition format_03d :: "int \<Rightarrow> string" where
  "format_03d i =
     (if i < 0 then CHR ''-'' # replicate (2 - length (digits (nat (- i)))) CHR ''0'' @ digits (nat (- i))
      else replicate (3 - length (digits (nat i))) CHR ''0'' @ digits (nat i))"

subsection \<open>Counters\<close>

text \<open>
  \<^verbatim>\<open>INSERT OR IGNORE INTO counters(name, value) VALUES(?, ?)\<close> adds the row unless
  the name has one; the \<^verbatim>\<open>UPDATE\<close> rewrites the row of that name, if any.
\<close>

definition insert_or_ignore_counter :: "string \<Rightarrow> int \<Rightarrow> db \<Rightarrow> db" where
  "insert_or_ignore_counter name v d =
     (case counters d name of
        None \<Rightarrow> d\<lparr>counters := (counters d)(name \<mapsto> v)\<rparr>
      | Some _ \<Rightarrow> d)"

definition update_counter :: "string \<Rightarrow> (int \<Rightarrow> int) \<Rightarrow> db \<Rightarrow> db" where
  "update_counter name f d =
     (case counters d name of
        None \<Rightarrow> d
      | Some v \<Rightarrow> d\<lparr>counters := (counters d)(name \<mapsto> f v)\<rparr>)"

text \<open>Both statements of \<^verbatim>\<open>ensure_counter_at_least\<close> bind \<^verbatim>\<open>min_value\<close>: when it does
  not fit, the first one raises and nothing is written.\<close>

definition ensure_counter_at_least :: "string \<Rightarrow> int \<Rightarrow> db \<Rightarrow> error + db" where
  "ensure_counter_at_least name min_value d =
     (if \<not> fits_int64 min_value then Inl OverflowError
      else Inr (update_counter name (\<lambda>v. if v < min_value then min_value else v)
                  (insert_or_ignore_counter name min_value d)))"

text \<open>\<^verbatim>\<open>value + 1\<close> in SQLite: an \<^verbatim>\<open>INTEGER\<close> below the largest one is incremented; the
  largest one, \<open>2 ^ 63 - 1\<close>, becomes the \<^verbatim>\<open>REAL\<close> \<open>2 ^ 63\<close>; a \<^verbatim>\<open>REAL\<close> of that size or
  more is not changed by adding 1. \<^verbatim>\<open>int(row[0])\<close> is the integer in each case.\<close>

definition sqlite_add1 :: "int \<Rightarrow> int" where
  "sqlite_add1 v = (if fits_int64 v then v + 1 else v)"

text \<open>\<^verbatim>\<open>fetchone()\<close> is \<^verbatim>\<open>None\<close> when no row matches, and \<^verbatim>\<open>row[0]\<close> then raises
  \<^verbatim>\<open>TypeError\<close>.\<close>

definition next_counter :: "string \<Rightarrow> db \<Rightarrow> (error + int) \<times> db" where
  "next_counter name d =
     (let d1 = insert_or_ignore_counter name 0 d;
          d2 = update_counter name sqlite_add1 d1
      in case counters d2 name of
           None \<Rightarrow> (Inl TypeError, d2)
         | Some v \<Rightarrow> (Inr v, d2))"

subsection \<open>Reading the tables\<close>

text \<open>\<^verbatim>\<open>SELECT COALESCE(MAX(seq), 0) FROM {table}\<close>; the script asks for \<^verbatim>\<open>users\<close> and
  \<^verbatim>\<open>posts\<close>, and a table without a \<^verbatim>\<open>seq\<close> column is an error of the statement.\<close>

definition max_seq :: "string \<Rightarrow> db \<Rightarrow> error + int" where
  "max_seq table d =
     (if table = ''users'' then
        Inr (if users d = [] then 0 else Max (set (map (\<lambda>r. sint (user_seq r)) (users d))))
      else if table = ''posts'' then
        Inr (if posts d = [] then 0 else Max (set (map (\<lambda>r. sint (post_seq r)) (posts d))))
      else if table = ''boards'' then
        Inr (if boards d = [] then 0 else Max (set (map (\<lambda>r. sint (board_seq r)) (boards d))))
      else Inl OperationalError)"

definition fetch_board_ids :: "db \<Rightarrow> string list" where
  "fetch_board_ids d =
     (let rows = map board_id (sort_key (\<lambda>r. sint (board_seq r)) (boards d))
      in if rows \<noteq> [] then rows else [''b_1'', ''b_2'', ''b_3''])"

subsection \<open>The sample texts\<close>

text \<open>Python strings are kept as their UTF-8 bytes.\<close>

definition utf8 :: "nat list \<Rightarrow> string" where
  "utf8 bs = map char_of bs"

definition SAMPLE_POSTS :: "(string \<times> string) list" where
  "SAMPLE_POSTS =
     [(utf8 [0xE7, 0x9F, 0xBF, 0xE5, 0xA4, 0xA7, 0xE5, 0x93, 0xAA, 0xE4, 0xB8, 0xAA, 0xE9, 0xA3,
           0x9F, 0xE5, 0xA0, 0x82, 0xE6, 0x9C, 0x80, 0xE5, 0xA5, 0xBD, 0xE5, 0x90, 0x83, 0xEF,
           0xBC, 0x9F],
       utf8 [0xE6, 0x9C, 0x80, 0xE8, 0xBF, 0x91, 0xE6, 0x80, 0xBB, 0xE4, 0xB8, 0x8D, 0xE7, 0x9F,
             0xA5, 0xE9, 0x81, 0x93, 0xE5, 0x90, 0x83, 0xE4, 0xBB, 0x80, 0xE4, 0xB9, 0x88, 0xEF,
             0xBC, 0x8C, 0xE6, 0xB1, 0x82, 0xE6, 0x8E, 0xA8, 0xE8, 0x8D, 0x90, 0xE3, 0x80,
             0x82]),
      (utf8 [0xE5, 0xA4, 0xA7, 0xE4, 0xBA, 0x8C, 0x20, 0x43, 0x53, 0x20, 0xE9, 0x80, 0x89, 0xE8,
            0xAF, 0xBE, 0xE6, 0xB1, 0x82, 0xE5, 0x8A, 0xA9],
       utf8 [0xE6, 0x83, 0xB3, 0xE9, 0x80, 0x89, 0xE8, 0xAE, 0xA1, 0xE7, 0xBD, 0x91, 0x2F, 0x4F,
             0x53, 0xEF, 0xBC, 0x8C, 0xE5, 0xAD, 0xA6, 0xE9, 0x95, 0xBF, 0xE5, 0xAD, 0xA6, 0xE5,
             0xA7, 0x90, 0xE7, 0xBB, 0x99, 0xE7, 0x82, 0xB9, 0xE5, 0xBB, 0xBA, 0xE8, 0xAE, 0xAE,
             0xE3, 0x80, 0x82]),
      (utf8 [0xE4, 0xB8, 0xA2, 0xE4, 0xBA, 0x86, 0xE4, 0xB8, 0x80, 0xE5, 0xBC, 0xA0, 0xE6, 0xA0,
            0xA1, 0xE5, 0x9B, 0xAD, 0xE5, 0x8D, 0xA1, 0x2E, 0x2E, 0x2E],
       utf8 [0xE5, 0x9C, 0xA8, 0xE4, 0xB8, 0x89, 0xE9, 0xA3, 0x9F, 0xE5, 0xA0, 0x82, 0xE9, 0x99,
             0x84, 0xE8, 0xBF, 0x91, 0xE4, 0xB8, 0xA2, 0xE7, 0x9A, 0x84, 0xEF, 0xBC, 0x8C, 0xE6,
             0x9C, 0x89, 0xE6, 0x8D, 0xA1, 0xE5, 0x88, 0xB0, 0xE7, 0x9A, 0x84, 0xE5, 0x90, 0x8C,
             0xE5, 0xAD, 0xA6, 0xE8, 0x81, 0x94, 0xE7, 0xB3, 0xBB, 0xE6, 0x88, 0x91, 0xE3, 0x80,
             0x82]),
      (utf8 [0xE6, 0x9C, 0x9F, 0xE6, 0x9C, 0xAB, 0xE5, 0xA4, 0x8D, 0xE4, 0xB9, 0xA0, 0xE8, 0xB5,
            0x84, 0xE6, 0x96, 0x99, 0xE6, 0xB1, 0x82, 0xE5, 0x88, 0x86, 0xE4, 0xBA, 0xAB],
       utf8 [0xE6, 0x9C, 0x89, 0xE6, 0xB2, 0xA1, 0xE6, 0x9C, 0x89, 0xE7, 0xA6, 0xBB, 0xE6, 0x95,
             0xA3, 0x2F, 0xE9, 0xAB, 0x98, 0xE6, 0x95, 0xB0, 0xE5, 0xA4, 0x8D, 0xE4, 0xB9, 0xA0,
             0xE8, 0xB5, 0x84, 0xE6, 0x96, 0x99, 0xEF, 0xBC, 0x9F]),
      (utf8 [0xE5, 0xAE, 0xBF, 0xE8, 0x88, 0x8D, 0xE7, 0xA9, 0xBA, 0xE8, 0xB0, 0x83, 0xE7, 0xBB,
            0xB4, 0xE4, 0xBF, 0xAE, 0xE6, 0xB8, 0xA0, 0xE9, 0x81, 0x93],
       utf8 [0xE7, 0xA9, 0xBA, 0xE8, 0xB0, 0x83, 0xE4, 0xB8, 0x8D, 0xE5, 0x88, 0xB6, 0xE5, 0x86,
             0xB7, 0xEF, 0xBC, 0x8C, 0xE6, 0x9C, 0x89, 0xE6, 0xB2, 0xA1, 0xE6, 0x9C, 0x89, 0xE9,
             0x9D, 0xA0, 0xE8, 0xB0, 0xB1, 0xE6, 0x8A, 0xA5, 0xE4, 0xBF, 0xAE, 0xEF, 0xBC,
             0x9F]),
      (utf8 [0xE5, 0x9B, 0xBE, 0xE4, 0xB9, 0xA6, 0xE9, 0xA6, 0x86, 0xE8, 0x87, 0xAA, 0xE4, 0xB9,
            0xA0, 0xE5, 0xAE, 0xA4, 0xE5, 0x8D, 0xA0, 0xE5, 0xBA, 0xA7],
       utf8 [0xE7, 0x8E, 0xB0, 0xE5, 0x9C, 0xA8, 0xE5, 0x8D, 0xA0, 0xE5, 0xBA, 0xA7, 0xE8, 0xBF,
             0x98, 0xE4, 0xB8, 0xA5, 0xE9, 0x87, 0x8D, 0xE5, 0x90, 0x97, 0xEF, 0xBC, 0x9F]),
      (utf8 [0xE6, 0xA0, 0xA1, 0xE5, 0x9B, 0xAD, 0xE8, 0xB7, 0x91, 0xE8, 0x85, 0xBF, 0xE6, 0x8E,
            0xA8, 0xE8, 0x8D, 0x90],
       utf8 [0xE6, 0x9C, 0x89, 0xE6, 0xB2, 0xA1, 0xE6, 0x9C, 0x89, 0xE4, 0xBE, 0xBF, 0xE5, 0xAE,
             0x9C, 0xE7, 0x9A, 0x84, 0xE8, 0xB7, 0x91, 0xE8, 0x85, 0xBF, 0xE5, 0xB0, 0x8F, 0xE5,
             0x93, 0xA5, 0x2F, 0xE5, 0xB9, 0xB3, 0xE5, 0x8F, 0xB0, 0xEF, 0xBC, 0x9F]),
      (utf8 [0xE8, 0x80, 0x83, 0xE7, 0xA0, 0x94, 0xE8, 0x87, 0xAA, 0xE4, 0xB9, 0xA0, 0xE6, 0x90,
            0xAD, 0xE5, 0xAD, 0x90],
       utf8 [0xE6, 0x89, 0xBE, 0xE4, 0xB8, 0xAA, 0xE8, 0x80, 0x83, 0xE7, 0xA0, 0x94, 0xE6, 0x90,
             0xAD, 0xE5, 0xAD, 0x90, 0xE4, 0xB8, 0x80, 0xE8, 0xB5, 0xB7, 0xE6, 0x89, 0x93, 0xE5,
             0x8D, 0xA1, 0xE3, 0x80, 0x82]),
      (utf8 [0xE6, 0xA0, 0xA1, 0xE5, 0x9B, 0xAD, 0xE7, 0xBD, 0x91, 0xE9, 0x80, 0x9F, 0xE5, 0xBA,
            0xA6, 0xE6, 0x85, 0xA2],
       utf8 [0xE6, 0x99, 0x9A, 0xE4, 0xB8, 0x8A, 0xE6, 0x89, 0x93, 0xE6, 0xB8, 0xB8, 0xE6, 0x88,
             0x8F, 0xE5, 0xBB, 0xB6, 0xE8, 0xBF, 0x9F, 0xE9, 0xAB, 0x98, 0xEF, 0xBC, 0x8C, 0xE6,
             0x80, 0x8E, 0xE4, 0xB9, 0x88, 0xE5, 0x8A, 0x9E, 0xEF, 0xBC, 0x9F]),
      (utf8 [0xE7, 0xA4, 0xBE, 0xE5, 0x9B, 0xA2, 0xE6, 0xB4, 0xBB, 0xE5, 0x8A, 0xA8, 0xE6, 0x8E,
            0xA8, 0xE8, 0x8D, 0x90],
       utf8 [0xE6, 0x83, 0xB3, 0xE8, 0xAE, 0xA4, 0xE8, 0xAF, 0x86, 0xE6, 0x96, 0xB0, 0xE6, 0x9C,
             0x8B, 0xE5, 0x8F, 0x8B, 0xEF, 0xBC, 0x8C, 0xE6, 0x9C, 0x89, 0xE5, 0x93, 0xAA, 0xE4,
             0xBA, 0x9B, 0xE5, 0xA5, 0xBD, 0xE7, 0x8E, 0xA9, 0xE7, 0x9A, 0x84, 0xE7, 0xA4, 0xBE,
             0xE5, 0x9B, 0xA2, 0xEF, 0xBC, 0x9F])]"

text \<open>The prefix of a nickname, and the brackets (with the word for "post") that the
  content of a post gets around its number.\<close>

definition nickname_prefix :: string where
  "nickname_prefix = utf8 [0xE8, 0x99, 0x9A, 0xE6, 0x8B, 0x9F, 0xE7, 0x94, 0xA8, 0xE6, 0x88, 0xB7]"

definition content_open :: string where
  "content_open = utf8 [0xEF, 0xBC, 0x88, 0xE5, 0xB8, 0x96, 0xE5, 0xAD, 0x90, 0x20]"

definition content_close :: string where
  "content_close = utf8 [0xEF, 0xBC, 0x89]"

definition rfc3339 :: "int \<Rightarrow> timestamp" where
  "rfc3339 dt = Rfc3339 dt"

subsection \<open>Seeding users\<close>

text \<open>One iteration of the loop of \<^verbatim>\<open>seed_users\<close>, for the index \<open>i\<close>; it returns the
  identifier it appends to \<^verbatim>\<open>user_ids\<close>.\<close>

definition seed_users_body ::
  "'g random_lib \<Rightarrow> schema \<Rightarrow> int \<Rightarrow> string \<Rightarrow> nat \<Rightarrow> 'g world \<Rightarrow> (error + string) \<times> 'g world"
where
  "seed_users_body lib sch base_time run_id i w =
     (case next_counter ''user'' (conn w) of
        (Inl e, d1) \<Rightarrow> (Inl e, w\<lparr>conn := d1\<rparr>)
      | (Inr seq, d1) \<Rightarrow>
          (case randint lib 0 90 (rng w) of
             (days, g1) \<Rightarrow>
               (let uid = ''u_'' @ str_int seq;
                    nickname = nickname_prefix @ format_03d (int i + 1);
                    created_at = rfc3339 (base_time - days * 86400);
                    w1 = w\<lparr>conn := d1, rng := g1\<rparr>
                in case insert_users sch seq uid nickname created_at d1 of
                     Inl e \<Rightarrow> (Inl e, w1)
                   | Inr d2 \<Rightarrow>
                       (let account = ''seed_'' @ run_id @ ''_'' @ format_03d (int i + 1)
                        in case insert_accounts sch (accounts_values account uid []) d2 of
                             Inl e \<Rightarrow> (Inl e, w1\<lparr>conn := d2\<rparr>)
                           | Inr d3 \<Rightarrow> (Inr uid, w1\<lparr>conn := d3\<rparr>)))))"

fun seed_users_loop ::
  "'g random_lib \<Rightarrow> schema \<Rightarrow> int \<Rightarrow> string \<Rightarrow> nat list \<Rightarrow> string list \<Rightarrow> 'g world
     \<Rightarrow> (error + string list) \<times> 'g world"
where
  "seed_users_loop lib sch base_time run_id [] user_ids w = (Inr user_ids, w)"
| "seed_users_loop lib sch base_time run_id (i # rest) user_ids w =
     (case seed_users_body lib sch base_time run_id i w of
        (Inl e, w') \<Rightarrow> (Inl e, w')
      | (Inr uid, w') \<Rightarrow> seed_users_loop lib sch base_time run_id rest (user_ids @ [uid]) w')"

text \<open>\<open>base_time\<close> is the reading of the clock at the start of the function.\<close>

definition seed_users ::
  "'g random_lib \<Rightarrow> schema \<Rightarrow> int \<Rightarrow> int \<Rightarrow> string \<Rightarrow> 'g world
     \<Rightarrow> (error + string list) \<times> 'g world"
where
  "seed_users lib sch base_time count run_id w =
     seed_users_loop lib sch base_time run_id [0..<nat count] [] w"

subsection \<open>Seeding posts and likes\<close>

text \<open>One iteration of the first loop of \<^verbatim>\<open>seed_posts\<close>: the counter, then the draws
  (board, author, days, seconds), then the insert.\<close>

definition seed_posts_body ::
  "'g random_lib \<Rightarrow> schema \<Rightarrow> int \<Rightarrow> string list \<Rightarrow> string list \<Rightarrow> nat \<Rightarrow> 'g world
     \<Rightarrow> (error + string \<times> timestamp) \<times> 'g world"
where
  "seed_posts_body lib sch base_time user_ids board_ids i w =
     (case next_counter ''post'' (conn w) of
        (Inl e, d1) \<Rightarrow> (Inl e, w\<lparr>conn := d1\<rparr>)
      | (Inr seq, d1) \<Rightarrow>
          (case choice lib board_ids (rng w) of
             (Inl e, g1) \<Rightarrow> (Inl e, w\<lparr>conn := d1, rng := g1\<rparr>)
           | (Inr bid, g1) \<Rightarrow>
               (case choice lib user_ids g1 of
                  (Inl e, g2) \<Rightarrow> (Inl e, w\<lparr>conn := d1, rng := g2\<rparr>)
                | (Inr author, g2) \<Rightarrow>
                    (case randint lib 0 30 g2 of
                       (days, g3) \<Rightarrow>
                         (case randint lib 0 86400 g3 of
                            (seconds, g4) \<Rightarrow>
                              (let pid = ''p_'' @ str_int seq;
                                   sample = SAMPLE_POSTS ! (i mod length SAMPLE_POSTS);
                                   title = fst sample;
                                   content = snd sample @ content_open @ str_int (int i + 1)
                                             @ content_close;
                                   created_at = rfc3339 (base_time - (days * 86400 + seconds));
                                   w1 = w\<lparr>conn := d1, rng := g4\<rparr>
                               in case insert_posts sch seq pid bid author title content [] []
                                         [] created_at d1 of
                                    Inl e \<Rightarrow> (Inl e, w1)
                                  | Inr d2 \<Rightarrow> (Inr (pid, created_at), w1\<lparr>conn := d2\<rparr>)))))))"

fun seed_posts_loop ::
  "'g random_lib \<Rightarrow> schema \<Rightarrow> int \<Rightarrow> string list \<Rightarrow> string list \<Rightarrow> nat list
     \<Rightarrow> (string \<times> timestamp) list \<Rightarrow> 'g world
     \<Rightarrow> (error + (string \<times> timestamp) list) \<times> 'g world"
where
  "seed_posts_loop lib sch base_time user_ids board_ids [] ps w = (Inr ps, w)"
| "seed_posts_loop lib sch base_time user_ids board_ids (i # rest) ps w =
     (case seed_posts_body lib sch base_time user_ids board_ids i w of
        (Inl e, w') \<Rightarrow> (Inl e, w')
      | (Inr p, w') \<Rightarrow>
          seed_posts_loop lib sch base_time user_ids board_ids rest (ps @ [p]) w')"

text \<open>\<^verbatim>\<open>range(start, stop, step)\<close> for a positive step, the only kind the script asks
  for (\<^verbatim>\<open>liked_every\<close> is raised to 1 first).\<close>

function py_range :: "int \<Rightarrow> int \<Rightarrow> int \<Rightarrow> int list" where
  "py_range start stop step =
     (if 0 < step \<and> start < stop then start # py_range (start + step) stop step else [])"
  by pat_completeness auto
termination
  by (relation "measure (\<lambda>(start, stop, step). nat (stop - start))") auto

declare py_range.simps [simp del]

text \<open>The inner loop: one like for each user of the prefix.\<close>

fun insert_likes :: "schema \<Rightarrow> string \<Rightarrow> timestamp \<Rightarrow> string list \<Rightarrow> db \<Rightarrow> (error + unit) \<times> db"
where
  "insert_likes sch pid created_at [] d = (Inr (), d)"
| "insert_likes sch pid created_at (uid # rest) d =
     (case insert_post_votes sch (post_votes_values pid uid 1 created_at) d of
        Inl e \<Rightarrow> (Inl e, d)
      | Inr d' \<Rightarrow> insert_likes sch pid created_at rest d')"

text \<open>The loop over \<^verbatim>\<open>enumerate(posts)\<close>, with the counter \<^verbatim>\<open>liked_posts\<close>.\<close>

fun likes_loop ::
  "schema \<Rightarrow> string list \<Rightarrow> int set \<Rightarrow> int \<Rightarrow> (nat \<times> string \<times> timestamp) list \<Rightarrow> nat \<Rightarrow> db
     \<Rightarrow> (error + nat) \<times> db"
where
  "likes_loop sch user_ids liked_indices like_user_count [] liked_posts d =
     (Inr liked_posts, d)"
| "likes_loop sch user_ids liked_indices like_user_count ((idx, pid, created_at) # rest)
       liked_posts d =
     (if int idx \<notin> liked_indices \<or> like_user_count \<le> 0 then
        likes_loop sch user_ids liked_indices like_user_count rest liked_posts d
      else
        (case insert_likes sch pid created_at (take (nat like_user_count) user_ids) d of
           (Inl e, d') \<Rightarrow> (Inl e, d')
         | (Inr _, d') \<Rightarrow>
             likes_loop sch user_ids liked_indices like_user_count rest (liked_posts + 1) d'))"

definition seed_posts ::
  "'g random_lib \<Rightarrow> schema \<Rightarrow> int \<Rightarrow> int \<Rightarrow> string list \<Rightarrow> string list \<Rightarrow> int \<Rightarrow> int
     \<Rightarrow> 'g world \<Rightarrow> (error + (string \<times> timestamp) list \<times> nat) \<times> 'g world"
where
  "seed_posts lib sch base_time count user_ids board_ids likes_per_post liked_every w =
     (case seed_posts_loop lib sch base_time user_ids board_ids [0..<nat count] [] w of
        (Inl e, w1) \<Rightarrow> (Inl e, w1)
      | (Inr ps, w1) \<Rightarrow>
          (let liked_every' = max 1 liked_every;
               liked_indices = set (py_range 0 count liked_every');
               like_user_count = min likes_per_post (int (length user_ids))
           in case likes_loop sch user_ids liked_indices like_user_count (enumerate 0 ps) 0
                     (conn w1) of
                (Inl e, d) \<Rightarrow> (Inl e, w1\<lparr>conn := d\<rparr>)
              | (Inr liked_posts, d) \<Rightarrow> (Inr (ps, liked_posts), w1\<lparr>conn := d\<rparr>)))"

subsection \<open>The run\<close>

record args =
  arg_db :: string
  arg_users :: int
  arg_posts :: int
  arg_likes_per_post :: int
  arg_liked_every :: int

text \<open>What the run reads from outside: whether \<^verbatim>\<open>os.path.exists(args.db)\<close> holds, the
  clock as \<^verbatim>\<open>%Y%m%d%H%M%S\<close> at the start of the transaction, and the clock at the start
  of \<^verbatim>\<open>seed_users\<close> and of \<^verbatim>\<open>seed_posts\<close>.\<close>

record env =
  path_exists :: bool
  now_run_id :: string
  now_seed_users :: int
  now_seed_posts :: int

text \<open>The process ends by returning a status from \<^verbatim>\<open>main\<close>, or with an exception that
  nothing catches (the interpreter then prints the traceback and the status is not 0).\<close>

datatype exit = Exit int | Raised error

record result =
  final_db :: db
  stdout :: "string list"
  stderr :: "string list"
  status :: exit

text \<open>\<^verbatim>\<open>with conn:\<close> commits when its body ends, and rolls back when the body raises.\<close>

definition with_conn ::
  "('g world \<Rightarrow> (error + 'a) \<times> 'g world) \<Rightarrow> 'g world \<Rightarrow> (error + 'a) \<times> 'g world"
where
  "with_conn body w =
     (case body w of
        (Inl e, w') \<Rightarrow> (Inl e, w'\<lparr>conn := disk w'\<rparr>)
      | (Inr x, w') \<Rightarrow> (Inr x, w'\<lparr>disk := conn w'\<rparr>))"

text \<open>The body of the \<^verbatim>\<open>with\<close> block of \<^verbatim>\<open>main\<close>.\<close>

definition seed_all ::
  "'g random_lib \<Rightarrow> schema \<Rightarrow> env \<Rightarrow> args \<Rightarrow> 'g world
     \<Rightarrow> (error + string list \<times> (string \<times> timestamp) list \<times> nat) \<times> 'g world"
where
  "seed_all lib sch ev a w =
     (case max_seq ''users'' (conn w) of
        Inl e \<Rightarrow> (Inl e, w)
      | Inr mu \<Rightarrow>
          (case ensure_counter_at_least ''user'' mu (conn w) of
             Inl e \<Rightarrow> (Inl e, w)
           | Inr d1 \<Rightarrow>
               (let w1 = w\<lparr>conn := d1\<rparr>
                in case max_seq ''posts'' (conn w1) of
                     Inl e \<Rightarrow> (Inl e, w1)
                   | Inr mp \<Rightarrow>
                       (case ensure_counter_at_least ''post'' mp (conn w1) of
                          Inl e \<Rightarrow> (Inl e, w1)
                        | Inr d2 \<Rightarrow>
                            (let w2 = w1\<lparr>conn := d2\<rparr>;
                                 run_id = now_run_id ev
                             in case seed_users lib sch (now_seed_users ev) (arg_users a) run_id
                                       w2 of
                                  (Inl e, w3) \<Rightarrow> (Inl e, w3)
                                | (Inr user_ids, w3) \<Rightarrow>
                                    (let board_ids = fetch_board_ids (conn w3)
                                     in case seed_posts lib sch (now_seed_posts ev) (arg_posts a)
                                               user_ids board_ids (arg_likes_per_post a)
                                               (arg_liked_every a) w3 of
                                          (Inl e, w4) \<Rightarrow> (Inl e, w4)
                                        | (Inr (ps, liked_posts), w4) \<Rightarrow>
                                            (Inr (user_ids, ps, liked_posts), w4)))))))"

definition summary_line :: "nat \<Rightarrow> nat \<Rightarrow> nat \<Rightarrow> string" where
  "summary_line n_users n_posts liked_posts =
     ''Seeded users: '' @ str_int (int n_users) @ '', posts: '' @ str_int (int n_posts)
       @ '', posts with likes: '' @ str_int (int liked_posts)"

definition warning_line :: "nat \<Rightarrow> string" where
  "warning_line cap =
     ''Warning: likes_per_post exceeds user count; likes capped to '' @ str_int (int cap)
       @ ''.''"

definition main :: "'g random_lib \<Rightarrow> schema \<Rightarrow> env \<Rightarrow> args \<Rightarrow> db \<Rightarrow> result" where
  "main lib sch ev a d0 =
     (if \<not> path_exists ev then
        \<lparr>final_db = d0, stdout = [], stderr = [''Database not found: '' @ arg_db a],
         status = Exit 1\<rparr>
      else
        (case with_conn (seed_all lib sch ev a)
                \<lparr>disk = d0, conn = d0, rng = random_seed lib 42\<rparr> of
           (Inl e, w) \<Rightarrow> \<lparr>final_db = disk w, stdout = [], stderr = [], status = Raised e\<rparr>
         | (Inr (user_ids, ps, liked_posts), w) \<Rightarrow>
             \<lparr>final_db = disk w,
              stdout =
                summary_line (length user_ids) (length ps) liked_posts
                  # (if arg_likes_per_post a > int (length user_ids)
                     then [warning_line (length user_ids)] else []),
              stderr = [], status = Exit 0\<rparr>))"

subsection \<open>What a run writes when nothing fails\<close>

text \<open>
  The following functions describe the rows of a run in which no statement raises: the
  draws in the order the loops make them (\<open>gen_users\<close>, \<open>gen_posts\<close>), the rows built
  from them, and the database that results (\<open>seeded_db\<close>). The lemmas \<open>main_Exit_0\<close> and
  \<open>main_failed\<close> below connect them to \<open>main\<close>. The functions \<open>inserted_users\<close>,
  \<open>inserted_accounts\<close>, \<open>inserted_posts\<close> and \<open>inserted_post_votes\<close> give the rows of a
  table that were appended between two states of the database, and \<open>counter_floor\<close> is
  the value a counter is raised to before seeding. The constants whose names start
  with \<open>demo\<close>, and the argument records next to them, are small concrete inputs.
\<close>

definition counter_value :: "db \<Rightarrow> string \<Rightarrow> int" where
  "counter_value d name = (case counters d name of None \<Rightarrow> 0 | Some v \<Rightarrow> v)"

definition new_user :: "int \<Rightarrow> nat \<Rightarrow> int \<Rightarrow> int \<Rightarrow> user_row" where
  "new_user base_time i seq days =
     users_values seq (''u_'' @ str_int seq) (nickname_prefix @ format_03d (int i + 1))
       (rfc3339 (base_time - days * 86400))"

definition new_account :: "string \<Rightarrow> nat \<Rightarrow> int \<Rightarrow> account_row" where
  "new_account run_id i seq =
     accounts_values (''seed_'' @ run_id @ ''_'' @ format_03d (int i + 1)) (''u_'' @ str_int seq) []"

fun gen_users :: "'g random_lib \<Rightarrow> nat list \<Rightarrow> int \<Rightarrow> 'g \<Rightarrow> (nat \<times> int \<times> int) list \<times> 'g" where
  "gen_users lib [] c g = ([], g)"
| "gen_users lib (i # rest) c g =
     (case randint lib 0 90 g of
        (days, g1) \<Rightarrow>
          (case gen_users lib rest (c + 1) g1 of
             (rows, g2) \<Rightarrow> ((i, c + 1, days) # rows, g2)))"

definition add_users :: "int \<Rightarrow> string \<Rightarrow> (nat \<times> int \<times> int) list \<Rightarrow> db \<Rightarrow> db" where
  "add_users base_time run_id rows d =
     (if rows = [] then d
      else d\<lparr>counters := (counters d)(''user'' \<mapsto> counter_value d ''user'' + int (length rows)),
             users := users d @ map (\<lambda>(i, seq, days). new_user base_time i seq days) rows,
             accounts := accounts d @ map (\<lambda>(i, seq, days). new_account run_id i seq) rows\<rparr>)"

type_synonym post_draw = "nat \<times> int \<times> string \<times> string \<times> int \<times> int"

definition new_post :: "int \<Rightarrow> post_draw \<Rightarrow> post_row" where
  "new_post base_time r =
     (case r of (i, seq, bid, author, days, seconds) \<Rightarrow>
        posts_values seq (''p_'' @ str_int seq) bid author
          (fst (SAMPLE_POSTS ! (i mod length SAMPLE_POSTS)))
          (snd (SAMPLE_POSTS ! (i mod length SAMPLE_POSTS)) @ content_open @ str_int (int i + 1)
             @ content_close)
          [] [] [] (rfc3339 (base_time - (days * 86400 + seconds))))"

fun gen_posts ::
  "'g random_lib \<Rightarrow> string list \<Rightarrow> string list \<Rightarrow> nat list \<Rightarrow> int \<Rightarrow> 'g \<Rightarrow> post_draw list \<times> 'g"
where
  "gen_posts lib user_ids board_ids [] c g = ([], g)"
| "gen_posts lib user_ids board_ids (i # rest) c g =
     (case randbelow lib g (length board_ids) of
        (rb, g1) \<Rightarrow>
          (case randbelow lib g1 (length user_ids) of
             (ra, g2) \<Rightarrow>
               (case randint lib 0 30 g2 of
                  (days, g3) \<Rightarrow>
                    (case randint lib 0 86400 g3 of
                       (seconds, g4) \<Rightarrow>
                         (case gen_posts lib user_ids board_ids rest (c + 1) g4 of
                            (rows, g5) \<Rightarrow>
                              ((i, c + 1, board_ids ! rb, user_ids ! ra, days, seconds) # rows,
                               g5))))))"

definition add_posts :: "int \<Rightarrow> post_draw list \<Rightarrow> db \<Rightarrow> db" where
  "add_posts base_time rows d =
     (if rows = [] then d
      else d\<lparr>counters := (counters d)(''post'' \<mapsto> counter_value d ''post'' + int (length rows)),
             posts := posts d @ map (new_post base_time) rows\<rparr>)"

definition post_key :: "int \<Rightarrow> post_draw \<Rightarrow> string \<times> timestamp" where
  "post_key base_time r = (post_id (new_post base_time r), post_created_at (new_post base_time r))"

definition like_rows :: "string list \<Rightarrow> int \<Rightarrow> string \<times> timestamp \<Rightarrow> vote_row list" where
  "like_rows user_ids like_user_count p =
     map (\<lambda>uid. post_votes_values (fst p) uid 1 (snd p)) (take (nat like_user_count) user_ids)"

definition liked :: "int set \<Rightarrow> int \<Rightarrow> nat \<times> string \<times> timestamp \<Rightarrow> bool" where
  "liked liked_indices like_user_count x \<longleftrightarrow> int (fst x) \<in> liked_indices \<and> 0 < like_user_count"

definition new_likes ::
  "string list \<Rightarrow> int set \<Rightarrow> int \<Rightarrow> (nat \<times> string \<times> timestamp) list \<Rightarrow> vote_row list" where
  "new_likes user_ids liked_indices like_user_count xs =
     concat (map (\<lambda>x. if liked liked_indices like_user_count x
                        then like_rows user_ids like_user_count (snd x) else []) xs)"

definition max_user_seq :: "db \<Rightarrow> int" where
  "max_user_seq d =
     (if users d = [] then 0 else Max (set (map (\<lambda>r. sint (user_seq r)) (users d))))"

definition max_post_seq :: "db \<Rightarrow> int" where
  "max_post_seq d =
     (if posts d = [] then 0 else Max (set (map (\<lambda>r. sint (post_seq r)) (posts d))))"

definition floor_counter :: "string \<Rightarrow> int \<Rightarrow> db \<Rightarrow> db" where
  "floor_counter name m d =
     update_counter name (\<lambda>v. if v < m then m else v) (insert_or_ignore_counter name m d)"

definition raise_counters :: "db \<Rightarrow> db" where
  "raise_counters d =
     floor_counter ''post'' (max_post_seq d) (floor_counter ''user'' (max_user_seq d) d)"

definition seeded_users :: "'g random_lib \<Rightarrow> args \<Rightarrow> db \<Rightarrow> (nat \<times> int \<times> int) list \<times> 'g" where
  "seeded_users lib a d0 =
     gen_users lib [0..<nat (arg_users a)] (counter_value (raise_counters d0) ''user'')
       (random_seed lib 42)"

definition seeded_user_ids :: "'g random_lib \<Rightarrow> args \<Rightarrow> db \<Rightarrow> string list" where
  "seeded_user_ids lib a d0 =
     map (\<lambda>(i, seq, days). ''u_'' @ str_int seq) (fst (seeded_users lib a d0))"

definition seeded_posts :: "'g random_lib \<Rightarrow> args \<Rightarrow> db \<Rightarrow> post_draw list \<times> 'g" where
  "seeded_posts lib a d0 =
     gen_posts lib (seeded_user_ids lib a d0) (fetch_board_ids d0) [0..<nat (arg_posts a)]
       (counter_value (raise_counters d0) ''post'') (snd (seeded_users lib a d0))"

definition seeded_likes :: "'g random_lib \<Rightarrow> env \<Rightarrow> args \<Rightarrow> db \<Rightarrow> vote_row list" where
  "seeded_likes lib ev a d0 =
     new_likes (seeded_user_ids lib a d0)
       (set (py_range 0 (arg_posts a) (max 1 (arg_liked_every a))))
       (min (arg_likes_per_post a) (int (length (seeded_user_ids lib a d0))))
       (enumerate 0 (map (post_key (now_seed_posts ev)) (fst (seeded_posts lib a d0))))"

definition seeded_liked_posts :: "'g random_lib \<Rightarrow> env \<Rightarrow> args \<Rightarrow> db \<Rightarrow> nat" where
  "seeded_liked_posts lib ev a d0 =
     length (filter
       (liked (set (py_range 0 (arg_posts a) (max 1 (arg_liked_every a))))
          (min (arg_likes_per_post a) (int (length (seeded_user_ids lib a d0)))))
       (enumerate 0 (map (post_key (now_seed_posts ev)) (fst (seeded_posts lib a d0)))))"

definition seeded_db :: "'g random_lib \<Rightarrow> env \<Rightarrow> args \<Rightarrow> db \<Rightarrow> db" where
  "seeded_db lib ev a d0 =
     (add_posts (now_seed_posts ev) (fst (seeded_posts lib a d0))
        (add_users (now_seed_users ev) (now_run_id ev) (fst (seeded_users lib a d0))
           (raise_counters d0)))
     \<lparr>post_votes := post_votes d0 @ seeded_likes lib ev a d0\<rparr>"

definition demo_lib :: "nat random_lib" where
  "demo_lib = \<lparr>random_seed = (\<lambda>s. nat s), randbelow = (\<lambda>g n. (g mod n, g + 1))\<rparr>"

definition demo_schema :: schema where
  "demo_schema =
     \<lparr>users_ok = (\<lambda>d row. True), accounts_ok = (\<lambda>d row. True), posts_ok = (\<lambda>d row. True),
      post_votes_ok = (\<lambda>d row. True)\<rparr>"

definition strict_schema :: schema where
  "strict_schema = demo_schema\<lparr>posts_ok := (\<lambda>d row. post_seq row \<noteq> 2)\<rparr>"

definition demo_db :: db where
  "demo_db =
     \<lparr>counters = Map.empty, users = [], accounts = [], boards = [], posts = [],
      post_votes = []\<rparr>"

text \<open>A database whose users table already holds a row with \<^verbatim>\<open>seq\<close> 2, and whose counters
  table is empty.\<close>

definition used_db :: db where
  "used_db = demo_db\<lparr>users := [users_values 2 ''u_2'' ''resident'' (Rfc3339 0)]\<rparr>"

definition demo_env :: env where
  "demo_env =
     \<lparr>path_exists = True, now_run_id = ''20240101000000'', now_seed_users = 1704067200,
      now_seed_posts = 1704067201\<rparr>"

definition negative_args :: args where
  "negative_args =
     \<lparr>arg_db = ''dev.db'', arg_users = - 1, arg_posts = 0, arg_likes_per_post = 5,
      arg_liked_every = 2\<rparr>"

definition demo_args :: args where
  "demo_args =
     \<lparr>arg_db = ''dev.db'', arg_users = 2, arg_posts = 3, arg_likes_per_post = 5,
      arg_liked_every = 2\<rparr>"

definition counter_floor :: "db \<Rightarrow> string \<Rightarrow> int \<Rightarrow> int" where
  "counter_floor d name m = (case counters d name of None \<Rightarrow> m | Some v \<Rightarrow> max v m)"

definition inserted_users :: "db \<Rightarrow> db \<Rightarrow> user_row list" where
  "inserted_users d0 d1 = drop (length (users d0)) (users d1)"

definition inserted_posts :: "db \<Rightarrow> db \<Rightarrow> post_row list" where
  "inserted_posts d0 d1 = drop (length (posts d0)) (posts d1)"

definition inserted_post_votes :: "db \<Rightarrow> db \<Rightarrow> vote_row list" where
  "inserted_post_votes d0 d1 = drop (length (post_votes d0)) (post_votes d1)"

definition no_users_args :: args where
  "no_users_args =
     \<lparr>arg_db = ''dev.db'', arg_users = 0, arg_posts = 1, arg_likes_per_post = 5,
      arg_liked_every = 2\<rparr>"



definition negative_likes_args :: args where
  "negative_likes_args =
     \<lparr>arg_db = ''dev.db'', arg_users = 1, arg_posts = 1, arg_likes_per_post = - 1,
      arg_liked_every = 1\<rparr>"

definition twenty_args :: args where
  "twenty_args =
     \<lparr>arg_db = ''dev.db'', arg_users = 1, arg_posts = 20, arg_likes_per_post = 1,
      arg_liked_every = 5\<rparr>"

definition twenty_args_no_likes :: args where
  "twenty_args_no_likes = twenty_args\<lparr>arg_likes_per_post := 0\<rparr>"

definition demo_world :: "nat world" where
  "demo_world = \<lparr>disk = demo_db, conn = demo_db, rng = 44\<rparr>"



definition shift_timestamp :: "int \<Rightarrow> timestamp \<Rightarrow> timestamp" where
  "shift_timestamp delta ts = (case ts of Rfc3339 t \<Rightarrow> Rfc3339 (t + delta))"

definition inserted_accounts :: "db \<Rightarrow> db \<Rightarrow> account_row list" where
  "inserted_accounts d0 d1 = drop (length (accounts d0)) (accounts d1)"

definition later_env :: env where
  "later_env =
     \<lparr>path_exists = True, now_run_id = ''20240101000010'', now_seed_users = 1704067210,
      now_seed_posts = 1704067211\<rparr>"

section \<open>Properties\<close>

subsection \<open>Counters\<close>

lemma floor_counter_counters:
  "counters (floor_counter name m d) =
     (counters d)(name \<mapsto> (case counters d name of None \<Rightarrow> m | Some v \<Rightarrow> max v m))"
  by (auto simp: floor_counter_def update_counter_def insert_or_ignore_counter_def
      max_def split: option.splits)

lemma ensure_counter_at_least_fits:
  "fits_int64 m \<Longrightarrow> ensure_counter_at_least name m d = Inr (floor_counter name m d)"
  by (simp add: ensure_counter_at_least_def floor_counter_def)

text \<open>
  C3, as amended. For every counter name and every minimum that fits a 64-bit signed
  integer, \<open>ensure_counter_at_least\<close> returns, stores the minimum when the counter has no
  row, raises a lower stored value to the minimum, keeps a stored value that is not
  lower, touches nothing else, and a second call with the same arguments changes
  nothing more. For a minimum that does not fit, it raises \<^verbatim>\<open>OverflowError\<close> and writes
  nothing.
\<close>

theorem ensure_counter_at_least_spec:
  "(fits_int64 m \<longrightarrow>
      (\<exists>d'. ensure_counter_at_least name m d = Inr d'
         \<and> (counters d name = None \<longrightarrow> counters d' name = Some m)
         \<and> (\<forall>v. counters d name = Some v \<and> v < m \<longrightarrow> counters d' name = Some m)
         \<and> (\<forall>v. counters d name = Some v \<and> m \<le> v \<longrightarrow> counters d' name = Some v)
         \<and> d' = d\<lparr>counters := (counters d)(name := counters d' name)\<rparr>
         \<and> ensure_counter_at_least name m d' = Inr d'))
   \<and> (\<not> fits_int64 m \<longrightarrow> ensure_counter_at_least name m d = Inl OverflowError)"
  by (auto simp: ensure_counter_at_least_def update_counter_def insert_or_ignore_counter_def
      split: option.splits)

theorem ensure_counter_at_least_spec_witness:
  "fits_int64 7
   \<and> (\<exists>d'. ensure_counter_at_least ''user'' 7
        \<lparr>counters = Map.empty, users = [], accounts = [], boards = [], posts = [],
         post_votes = []\<rparr> = Inr d' \<and> counters d' ''user'' = Some 7)
   \<and> (\<exists>d'. ensure_counter_at_least ''user'' 7
        \<lparr>counters = [''user'' \<mapsto> 3], users = [], accounts = [], boards = [], posts = [],
         post_votes = []\<rparr> = Inr d' \<and> counters d' ''user'' = Some 7)
   \<and> (\<exists>d'. ensure_counter_at_least ''user'' 7
        \<lparr>counters = [''user'' \<mapsto> 9], users = [], accounts = [], boards = [], posts = [],
         post_votes = []\<rparr> = Inr d' \<and> counters d' ''user'' = Some 9)
   \<and> \<not> fits_int64 (2 ^ 63 + 5)
   \<and> ensure_counter_at_least ''user'' (2 ^ 63 + 5)
        \<lparr>counters = [''user'' \<mapsto> 9], users = [], accounts = [], boards = [], posts = [],
         post_votes = []\<rparr> = Inl OverflowError"
proof -
  have f: "fits_int64 7" and n: "\<not> fits_int64 (2 ^ 63 + 5)"
    by (simp_all add: fits_int64_def)
  have a: "\<exists>d'. ensure_counter_at_least ''user'' 7
        \<lparr>counters = Map.empty, users = [], accounts = [], boards = [], posts = [],
         post_votes = []\<rparr> = Inr d' \<and> counters d' ''user'' = Some 7"
    using f ensure_counter_at_least_spec [where m = 7 and name = "''user''"
      and d = "\<lparr>counters = Map.empty, users = [], accounts = [], boards = [], posts = [],
        post_votes = []\<rparr>"]
    by auto
  have b: "\<exists>d'. ensure_counter_at_least ''user'' 7
        \<lparr>counters = [''user'' \<mapsto> 3], users = [], accounts = [], boards = [], posts = [],
         post_votes = []\<rparr> = Inr d' \<and> counters d' ''user'' = Some 7"
    using f ensure_counter_at_least_spec [where m = 7 and name = "''user''"
      and d = "\<lparr>counters = [''user'' \<mapsto> 3], users = [], accounts = [], boards = [], posts = [],
        post_votes = []\<rparr>"]
    by auto
  have c: "\<exists>d'. ensure_counter_at_least ''user'' 7
        \<lparr>counters = [''user'' \<mapsto> 9], users = [], accounts = [], boards = [], posts = [],
         post_votes = []\<rparr> = Inr d' \<and> counters d' ''user'' = Some 9"
    using f ensure_counter_at_least_spec [where m = 7 and name = "''user''"
      and d = "\<lparr>counters = [''user'' \<mapsto> 9], users = [], accounts = [], boards = [], posts = [],
        post_votes = []\<rparr>"]
    by auto
  have d: "ensure_counter_at_least ''user'' (2 ^ 63 + 5)
        \<lparr>counters = [''user'' \<mapsto> 9], users = [], accounts = [], boards = [], posts = [],
         post_votes = []\<rparr> = Inl OverflowError"
    using n ensure_counter_at_least_spec [where m = "2 ^ 63 + 5" and name = "''user''"
      and d = "\<lparr>counters = [''user'' \<mapsto> 9], users = [], accounts = [], boards = [], posts = [],
        post_votes = []\<rparr>"]
    by blast
  from f n a b c d show ?thesis by blast
qed

theorem ensure_counter_at_least_spec_counterexample:
  "counters demo_db ''user'' = None
   \<and> ensure_counter_at_least ''user'' (2 ^ 63) demo_db = Inl OverflowError"
  by (simp add: ensure_counter_at_least_def fits_int64_def demo_db_def)

lemma sqlite_add1_fits: "fits_int64 (sqlite_add1 c) \<Longrightarrow> sqlite_add1 c = c + 1"
  by (simp add: sqlite_add1_def split: if_splits)

lemma next_counter_eq:
  "next_counter name d =
     (Inr (sqlite_add1 (counter_value d name)),
      d\<lparr>counters := (counters d)(name \<mapsto> sqlite_add1 (counter_value d name))\<rparr>)"
  by (auto simp: next_counter_def insert_or_ignore_counter_def update_counter_def
      counter_value_def Let_def split: option.splits)

text \<open>At the largest \<^verbatim>\<open>INTEGER\<close> the counter stops: \<^verbatim>\<open>next_counter\<close> returns \<open>2 ^ 63\<close>, and
  returns it again on the next call.\<close>

lemma next_counter_at_largest_integer:
  assumes "counters d name = Some (2 ^ 63 - 1)"
  shows "fst (next_counter name d) = Inr (2 ^ 63)"
    and "fst (next_counter name (snd (next_counter name d))) = Inr (2 ^ 63)"
  using assms
  by (simp_all add: next_counter_eq counter_value_def sqlite_add1_def fits_int64_def)

lemma seed_users_body_disk: "disk (snd (seed_users_body lib sch bt rid i w)) = disk w"
  by (simp add: seed_users_body_def next_counter_eq Let_def split: prod.splits sum.splits)

lemma seed_users_loop_disk:
  "disk (snd (seed_users_loop lib sch bt rid idxs acc w)) = disk w"
proof (induction idxs arbitrary: acc w)
  case Nil
  show ?case by simp
next
  case (Cons i rest)
  show ?case
  proof (cases "seed_users_body lib sch bt rid i w")
    case (Pair r w')
    have dw: "disk w' = disk w"
      using seed_users_body_disk [of lib sch bt rid i w] Pair by simp
    show ?thesis
    proof (cases r)
      case (Inl e)
      with Pair dw show ?thesis by simp
    next
      case (Inr uid)
      with Pair dw Cons.IH [of "acc @ [uid]" w'] show ?thesis by simp
    qed
  qed
qed

lemma seed_users_body_Inr:
  assumes "seed_users_body lib sch bt rid i w = (Inr uid, w')"
  shows "\<exists>days g1. randint lib 0 90 (rng w) = (days, g1) \<and>
           fits_int64 (counter_value (conn w) ''user'' + 1) \<and>
           uid = ''u_'' @ str_int (counter_value (conn w) ''user'' + 1) \<and>
           w' = w\<lparr>conn := (conn w)\<lparr>counters := (counters (conn w))(''user'' \<mapsto> counter_value (conn w) ''user'' + 1),
                                    users := users (conn w) @ [new_user bt i (counter_value (conn w) ''user'' + 1) days],
                                    accounts := accounts (conn w) @ [new_account rid i (counter_value (conn w) ''user'' + 1)]\<rparr>,
                  rng := g1\<rparr>"
proof -
  let ?c = "counter_value (conn w) ''user''"
  obtain days g1 where d: "randint lib 0 90 (rng w) = (days, g1)"
    by (cases "randint lib 0 90 (rng w)")
  from assms d have f: "fits_int64 (sqlite_add1 ?c)"
    by (auto simp: seed_users_body_def next_counter_eq Let_def insert_users_def
        split: sum.splits if_splits)
  have s: "sqlite_add1 ?c = ?c + 1" by (rule sqlite_add1_fits [OF f])
  from assms d f
  have r: "uid = ''u_'' @ str_int (sqlite_add1 ?c) \<and>
           w' = w\<lparr>conn := (conn w)\<lparr>counters := (counters (conn w))(''user'' \<mapsto> sqlite_add1 ?c),
                                    users := users (conn w) @ [new_user bt i (sqlite_add1 ?c) days],
                                    accounts := accounts (conn w) @ [new_account rid i (sqlite_add1 ?c)]\<rparr>,
                  rng := g1\<rparr>"
    by (auto simp: seed_users_body_def next_counter_eq Let_def insert_users_def
        insert_accounts_def new_user_def new_account_def split: sum.splits if_splits)
  from d f [unfolded s] r [unfolded s] show ?thesis by blast
qed

lemma add_users_Cons:
  "add_users bt rid rows
     (d\<lparr>counters := (counters d)(''user'' \<mapsto> counter_value d ''user'' + 1),
        users := users d @ [new_user bt i (counter_value d ''user'' + 1) days],
        accounts := accounts d @ [new_account rid i (counter_value d ''user'' + 1)]\<rparr>)
   = add_users bt rid ((i, counter_value d ''user'' + 1, days) # rows) d"
  by (simp add: add_users_def counter_value_def add.assoc)

lemma seed_users_loop_Inr:
  assumes "seed_users_loop lib sch bt rid idxs acc w = (Inr uids, w')"
  shows "w' = w\<lparr>conn := add_users bt rid (fst (gen_users lib idxs (counter_value (conn w) ''user'') (rng w))) (conn w),
                 rng := snd (gen_users lib idxs (counter_value (conn w) ''user'') (rng w))\<rparr>
         \<and> uids = acc @ map (\<lambda>(i, seq, days). ''u_'' @ str_int seq)
                           (fst (gen_users lib idxs (counter_value (conn w) ''user'') (rng w)))"
  using assms
proof (induction idxs arbitrary: acc w)
  case Nil
  then show ?case by (simp add: add_users_def)
next
  case (Cons i rest)
  let ?c = "counter_value (conn w) ''user''"
  obtain r w1 where b: "seed_users_body lib sch bt rid i w = (r, w1)"
    by (cases "seed_users_body lib sch bt rid i w")
  from Cons.prems b obtain uid where r: "r = Inr uid"
    by (cases r) auto
  from Cons.prems b r
  have rest: "seed_users_loop lib sch bt rid rest (acc @ [uid]) w1 = (Inr uids, w')"
    by simp
  from seed_users_body_Inr [OF b [unfolded r]] obtain days g1 where
    d: "randint lib 0 90 (rng w) = (days, g1)" and
    u: "uid = ''u_'' @ str_int (?c + 1)" and
    w1: "w1 = w\<lparr>conn := (conn w)\<lparr>counters := (counters (conn w))(''user'' \<mapsto> ?c + 1),
                                    users := users (conn w) @ [new_user bt i (?c + 1) days],
                                    accounts := accounts (conn w) @ [new_account rid i (?c + 1)]\<rparr>,
                  rng := g1\<rparr>"
    by blast
  have c1: "counter_value (conn w1) ''user'' = ?c + 1"
    by (simp add: w1 counter_value_def)
  have g: "rng w1 = g1" by (simp add: w1)
  from Cons.IH [OF rest]
  have w': "w' = w1\<lparr>conn := add_users bt rid (fst (gen_users lib rest (?c + 1) g1)) (conn w1),
                 rng := snd (gen_users lib rest (?c + 1) g1)\<rparr>"
    and ids: "uids = (acc @ [uid]) @ map (\<lambda>(i, seq, days). ''u_'' @ str_int seq) (fst (gen_users lib rest (?c + 1) g1))"
    by (simp_all add: c1 g)
  have gen: "gen_users lib (i # rest) ?c (rng w)
             = ((i, ?c + 1, days) # fst (gen_users lib rest (?c + 1) g1), snd (gen_users lib rest (?c + 1) g1))"
    by (simp add: d split: prod.splits)
  have conn1: "conn w1 = (conn w)\<lparr>counters := (counters (conn w))(''user'' \<mapsto> ?c + 1),
                                    users := users (conn w) @ [new_user bt i (?c + 1) days],
                                    accounts := accounts (conn w) @ [new_account rid i (?c + 1)]\<rparr>"
    by (simp add: w1)
  show ?case
    unfolding gen fst_conv snd_conv
    by (simp add: w' ids u conn1 add_users_Cons) (simp add: w1)
qed

lemma choice_Inr:
  assumes "choice lib xs g = (Inr x, g')"
  shows "xs \<noteq> [] \<and> fst (randbelow lib g (length xs)) < length xs
         \<and> x = xs ! fst (randbelow lib g (length xs)) \<and> g' = snd (randbelow lib g (length xs))"
  using assms by (auto simp: choice_def split: if_splits prod.splits)

lemma seed_posts_body_unfold:
  assumes "choice lib bs (rng w) = (rc, g1)" and "choice lib us g1 = (rc2, g2)"
    and "randint lib 0 30 g2 = (days, g3)" and "randint lib 0 86400 g3 = (seconds, g4)"
  shows "seed_posts_body lib sch bt us bs i w =
     (case rc of
        Inl e \<Rightarrow> (Inl e, w\<lparr>conn := snd (next_counter ''post'' (conn w)), rng := g1\<rparr>)
      | Inr bid \<Rightarrow>
          (case rc2 of
             Inl e \<Rightarrow> (Inl e, w\<lparr>conn := snd (next_counter ''post'' (conn w)), rng := g2\<rparr>)
           | Inr author \<Rightarrow>
               (case (if \<not> fits_int64 (sqlite_add1 (counter_value (conn w) ''post''))
                      then Inl OverflowError
                      else if posts_ok sch (snd (next_counter ''post'' (conn w)))
                                (new_post bt (i, sqlite_add1 (counter_value (conn w) ''post''),
                                   bid, author, days, seconds))
                      then Inr ((snd (next_counter ''post'' (conn w)))
                             \<lparr>posts := posts (snd (next_counter ''post'' (conn w)))
                                @ [new_post bt (i, sqlite_add1 (counter_value (conn w) ''post''),
                                     bid, author, days, seconds)]\<rparr>)
                      else Inl IntegrityError) of
                  Inl e \<Rightarrow> (Inl e, w\<lparr>conn := snd (next_counter ''post'' (conn w)), rng := g4\<rparr>)
                | Inr d2 \<Rightarrow>
                    ((Inr (post_key bt (i, sqlite_add1 (counter_value (conn w) ''post''),
                             bid, author, days, seconds))),
                     w\<lparr>conn := d2, rng := g4\<rparr>))))"
  unfolding seed_posts_body_def next_counter_eq
  by (simp add: assms Let_def new_post_def post_key_def posts_values_def insert_posts_def
      split: sum.split)

lemma seed_posts_body_disk: "disk (snd (seed_posts_body lib sch bt us bs i w)) = disk w"
proof -
  obtain rc g1 where c1: "choice lib bs (rng w) = (rc, g1)" by (cases "choice lib bs (rng w)")
  obtain rc2 g2 where c2: "choice lib us g1 = (rc2, g2)" by (cases "choice lib us g1")
  obtain days g3 where d: "randint lib 0 30 g2 = (days, g3)" by (cases "randint lib 0 30 g2")
  obtain seconds g4 where s: "randint lib 0 86400 g3 = (seconds, g4)"
    by (cases "randint lib 0 86400 g3")
  show ?thesis
    unfolding seed_posts_body_unfold [OF c1 c2 d s]
    by (simp split: sum.split)
qed

lemma seed_posts_body_Inr:
  assumes "seed_posts_body lib sch bt us bs i w = (Inr p, w')"
  shows "\<exists>rb g1 ra g2 days g3 seconds g4.
           randbelow lib (rng w) (length bs) = (rb, g1) \<and> rb < length bs \<and>
           randbelow lib g1 (length us) = (ra, g2) \<and> ra < length us \<and>
           randint lib 0 30 g2 = (days, g3) \<and> randint lib 0 86400 g3 = (seconds, g4) \<and>
           fits_int64 (counter_value (conn w) ''post'' + 1) \<and>
           p = post_key bt (i, counter_value (conn w) ''post'' + 1, bs ! rb, us ! ra, days, seconds) \<and>
           w' = w\<lparr>conn := (conn w)\<lparr>counters := (counters (conn w))(''post'' \<mapsto> counter_value (conn w) ''post'' + 1),
                                    posts := posts (conn w) @ [new_post bt (i, counter_value (conn w) ''post'' + 1, bs ! rb, us ! ra, days, seconds)]\<rparr>,
                  rng := g4\<rparr>"
proof -
  let ?c = "counter_value (conn w) ''post''"
  obtain rc g1 where c1: "choice lib bs (rng w) = (rc, g1)" by (cases "choice lib bs (rng w)")
  obtain rc2 g2 where c2: "choice lib us g1 = (rc2, g2)" by (cases "choice lib us g1")
  obtain days g3 where d: "randint lib 0 30 g2 = (days, g3)" by (cases "randint lib 0 30 g2")
  obtain seconds g4 where s: "randint lib 0 86400 g3 = (seconds, g4)"
    by (cases "randint lib 0 86400 g3")
  note u = assms [unfolded seed_posts_body_unfold [OF c1 c2 d s]]
  from u obtain bid where rc: "rc = Inr bid" by (cases rc) auto
  from u rc obtain author where rc2: "rc2 = Inr author" by (cases rc2) auto
  note cb = choice_Inr [OF c1 [unfolded rc]]
  note ca = choice_Inr [OF c2 [unfolded rc2]]
  from u rc rc2 have f: "fits_int64 (sqlite_add1 ?c)"
    by (auto split: sum.splits if_splits)
  have s1: "sqlite_add1 ?c = ?c + 1" by (rule sqlite_add1_fits [OF f])
  from u rc rc2 f
  have p: "p = post_key bt (i, sqlite_add1 ?c, bid, author, days, seconds)"
    and w'2: "w' = w\<lparr>conn := (conn w)\<lparr>counters := (counters (conn w))(''post'' \<mapsto> sqlite_add1 ?c),
                                    posts := posts (conn w) @ [new_post bt (i, sqlite_add1 ?c, bid, author, days, seconds)]\<rparr>,
                  rng := g4\<rparr>"
    by (auto simp: next_counter_eq split: sum.splits if_splits)
  have rb: "randbelow lib (rng w) (length bs) = (fst (randbelow lib (rng w) (length bs)), g1)"
    using cb by (simp add: prod_eq_iff)
  have ra: "randbelow lib g1 (length us) = (fst (randbelow lib g1 (length us)), g2)"
    using ca by (simp add: prod_eq_iff)
  show ?thesis
    using rb ra cb ca d s f [unfolded s1] p [unfolded s1] w'2 [unfolded s1] by blast
qed

lemma seed_posts_loop_disk:
  "disk (snd (seed_posts_loop lib sch bt us bs idxs acc w)) = disk w"
proof (induction idxs arbitrary: acc w)
  case Nil
  show ?case by simp
next
  case (Cons i rest)
  show ?case
  proof (cases "seed_posts_body lib sch bt us bs i w")
    case (Pair r w')
    have dw: "disk w' = disk w"
      using seed_posts_body_disk [of lib sch bt us bs i w] Pair by simp
    show ?thesis
    proof (cases r)
      case (Inl e)
      with Pair dw show ?thesis by simp
    next
      case (Inr p)
      with Pair dw Cons.IH [of "acc @ [p]" w'] show ?thesis by simp
    qed
  qed
qed

lemma add_posts_Cons:
  "add_posts bt rows
     (d\<lparr>counters := (counters d)(''post'' \<mapsto> counter_value d ''post'' + 1),
        posts := posts d @ [new_post bt (i, counter_value d ''post'' + 1, b, a, days, secs)]\<rparr>)
   = add_posts bt ((i, counter_value d ''post'' + 1, b, a, days, secs) # rows) d"
  by (simp add: add_posts_def counter_value_def add.assoc)

lemma seed_posts_loop_Inr:
  assumes "seed_posts_loop lib sch bt us bs idxs acc w = (Inr ps, w')"
  shows "w' = w\<lparr>conn := add_posts bt (fst (gen_posts lib us bs idxs (counter_value (conn w) ''post'') (rng w))) (conn w),
                 rng := snd (gen_posts lib us bs idxs (counter_value (conn w) ''post'') (rng w))\<rparr>
         \<and> ps = acc @ map (post_key bt) (fst (gen_posts lib us bs idxs (counter_value (conn w) ''post'') (rng w)))
         \<and> (\<forall>(i, seq, bid, author, days, seconds) \<in> set (fst (gen_posts lib us bs idxs (counter_value (conn w) ''post'') (rng w))).
               bid \<in> set bs \<and> author \<in> set us)"
  using assms
proof (induction idxs arbitrary: acc w)
  case Nil
  then show ?case by (simp add: add_posts_def)
next
  case (Cons i rest)
  let ?c = "counter_value (conn w) ''post''"
  obtain r w1 where b: "seed_posts_body lib sch bt us bs i w = (r, w1)"
    by (cases "seed_posts_body lib sch bt us bs i w")
  from Cons.prems b obtain p where r: "r = Inr p"
    by (cases r) auto
  from Cons.prems b r
  have rest: "seed_posts_loop lib sch bt us bs rest (acc @ [p]) w1 = (Inr ps, w')"
    by simp
  from seed_posts_body_Inr [OF b [unfolded r]] obtain rb g1 ra g2 days g3 seconds g4 where
    rb: "randbelow lib (rng w) (length bs) = (rb, g1)" "rb < length bs" and
    ra: "randbelow lib g1 (length us) = (ra, g2)" "ra < length us" and
    dd: "randint lib 0 30 g2 = (days, g3)" and ss: "randint lib 0 86400 g3 = (seconds, g4)" and
    pk: "p = post_key bt (i, ?c + 1, bs ! rb, us ! ra, days, seconds)" and
    w1: "w1 = w\<lparr>conn := (conn w)\<lparr>counters := (counters (conn w))(''post'' \<mapsto> ?c + 1),
                                    posts := posts (conn w) @ [new_post bt (i, ?c + 1, bs ! rb, us ! ra, days, seconds)]\<rparr>,
                  rng := g4\<rparr>"
    by blast
  let ?G = "gen_posts lib us bs rest (?c + 1) g4"
  have c1: "counter_value (conn w1) ''post'' = ?c + 1"
    by (simp add: w1 counter_value_def)
  have g: "rng w1 = g4" by (simp add: w1)
  from Cons.IH [OF rest]
  have w': "w' = w1\<lparr>conn := add_posts bt (fst ?G) (conn w1), rng := snd ?G\<rparr>"
    and ids: "ps = (acc @ [p]) @ map (post_key bt) (fst ?G)"
    and mem: "\<forall>(i, seq, bid, author, days, seconds) \<in> set (fst ?G). bid \<in> set bs \<and> author \<in> set us"
    by (simp_all add: c1 g)
  have gen: "gen_posts lib us bs (i # rest) ?c (rng w)
             = ((i, ?c + 1, bs ! rb, us ! ra, days, seconds) # fst ?G, snd ?G)"
    by (simp add: rb ra dd ss split: prod.splits)
  have conn1: "conn w1 = (conn w)\<lparr>counters := (counters (conn w))(''post'' \<mapsto> ?c + 1),
                                    posts := posts (conn w) @ [new_post bt (i, ?c + 1, bs ! rb, us ! ra, days, seconds)]\<rparr>"
    by (simp add: w1)
  have "w' = w\<lparr>conn := add_posts bt (fst (gen_posts lib us bs (i # rest) ?c (rng w))) (conn w),
                 rng := snd (gen_posts lib us bs (i # rest) ?c (rng w))\<rparr>"
    unfolding gen fst_conv snd_conv
    by (simp add: w' conn1 add_posts_Cons) (simp add: w1)
  moreover have "ps = acc @ map (post_key bt) (fst (gen_posts lib us bs (i # rest) ?c (rng w)))"
    unfolding gen fst_conv by (simp add: ids pk)
  moreover have "\<forall>(i, seq, bid, author, days, seconds) \<in> set (fst (gen_posts lib us bs (i # rest) ?c (rng w))).
               bid \<in> set bs \<and> author \<in> set us"
    unfolding gen fst_conv using mem rb(2) ra(2) by simp
  ultimately show ?case by blast
qed

lemma insert_likes_Inr:
  "insert_likes sch pid ts uids d = (Inr u, d') \<Longrightarrow>
     d' = d\<lparr>post_votes := post_votes d @ map (\<lambda>uid. post_votes_values pid uid 1 ts) uids\<rparr>"
proof (induction uids arbitrary: d)
  case Nil
  then show ?case by simp
next
  case (Cons uid rest)
  from Cons.prems obtain d1 where
    i: "insert_post_votes sch (post_votes_values pid uid 1 ts) d = Inr d1"
    and r: "insert_likes sch pid ts rest d1 = (Inr u, d')"
    by (auto split: sum.splits)
  from i have d1: "d1 = d\<lparr>post_votes := post_votes d @ [post_votes_values pid uid 1 ts]\<rparr>"
    by (simp add: insert_post_votes_def split: if_splits)
  from Cons.IH [OF r] show ?case by (simp add: d1)
qed

lemma likes_loop_Inr:
  "likes_loop sch us L luc xs n d = (Inr k, d') \<Longrightarrow>
     d' = d\<lparr>post_votes := post_votes d @ new_likes us L luc xs\<rparr>
     \<and> k = n + length (filter (liked L luc) xs)"
proof (induction xs arbitrary: n d)
  case Nil
  then show ?case by (simp add: new_likes_def)
next
  case (Cons x rest)
  obtain idx pid ts where x: "x = (idx, pid, ts)" by (cases x)
  show ?case
  proof (cases "liked L luc x")
    case False
    with Cons.prems x have "likes_loop sch us L luc rest n d = (Inr k, d')"
      by (auto simp: liked_def)
    from Cons.IH [OF this] False show ?thesis by (simp add: new_likes_def)
  next
    case True
    with Cons.prems x obtain u d1 where
      i: "insert_likes sch pid ts (take (nat luc) us) d = (Inr u, d1)"
      and r: "likes_loop sch us L luc rest (n + 1) d1 = (Inr k, d')"
      by (auto simp: liked_def split: sum.splits prod.splits)
    from insert_likes_Inr [OF i]
    have d1: "d1 = d\<lparr>post_votes := post_votes d @ like_rows us luc (pid, ts)\<rparr>"
      by (simp add: like_rows_def)
    from Cons.IH [OF r] True x show ?thesis by (simp add: d1 new_likes_def)
  qed
qed

lemma seed_posts_disk:
  "disk (snd (seed_posts lib sch bt count us bs lpp le w)) = disk w"
proof -
  obtain r w1 where l: "seed_posts_loop lib sch bt us bs [0..<nat count] [] w = (r, w1)"
    by (cases "seed_posts_loop lib sch bt us bs [0..<nat count] [] w")
  have "disk w1 = disk w"
    using seed_posts_loop_disk [of lib sch bt us bs "[0..<nat count]" "[]" w] l by simp
  then show ?thesis
    by (simp add: seed_posts_def l Let_def split: sum.split prod.split)
qed

lemma seed_users_disk: "disk (snd (seed_users lib sch bt count rid w)) = disk w"
  by (simp add: seed_users_def seed_users_loop_disk)

lemma seed_posts_Inr:
  assumes "seed_posts lib sch bt count us bs lpp le w = (Inr (ps, k), w')"
  shows "ps = map (post_key bt) (fst (gen_posts lib us bs [0..<nat count] (counter_value (conn w) ''post'') (rng w)))
    \<and> w' = w\<lparr>conn := (add_posts bt (fst (gen_posts lib us bs [0..<nat count] (counter_value (conn w) ''post'') (rng w))) (conn w))
                   \<lparr>post_votes := post_votes (conn w)
                      @ new_likes us (set (py_range 0 count (max 1 le))) (min lpp (int (length us))) (enumerate 0 ps)\<rparr>,
               rng := snd (gen_posts lib us bs [0..<nat count] (counter_value (conn w) ''post'') (rng w))\<rparr>
    \<and> k = length (filter (liked (set (py_range 0 count (max 1 le))) (min lpp (int (length us)))) (enumerate 0 ps))
    \<and> (\<forall>(i, seq, bid, author, days, seconds) \<in> set (fst (gen_posts lib us bs [0..<nat count] (counter_value (conn w) ''post'') (rng w))).
               bid \<in> set bs \<and> author \<in> set us)"
proof -
  let ?G = "gen_posts lib us bs [0..<nat count] (counter_value (conn w) ''post'') (rng w)"
  let ?L = "set (py_range 0 count (max 1 le))"
  let ?luc = "min lpp (int (length us))"
  obtain r w1 where l: "seed_posts_loop lib sch bt us bs [0..<nat count] [] w = (r, w1)"
    by (cases "seed_posts_loop lib sch bt us bs [0..<nat count] [] w")
  with assms obtain ps1 where r: "r = Inr ps1"
    by (cases r) (auto simp: seed_posts_def)
  from seed_posts_loop_Inr [OF l [unfolded r]]
  have w1: "w1 = w\<lparr>conn := add_posts bt (fst ?G) (conn w), rng := snd ?G\<rparr>"
    and ps1: "ps1 = map (post_key bt) (fst ?G)"
    and mem: "\<forall>(i, seq, bid, author, days, seconds) \<in> set (fst ?G). bid \<in> set bs \<and> author \<in> set us"
    by simp_all
  obtain r2 d2 where ll: "likes_loop sch us ?L ?luc (enumerate 0 ps1) 0 (conn w1) = (r2, d2)"
    by (cases "likes_loop sch us ?L ?luc (enumerate 0 ps1) 0 (conn w1)")
  from assms l r ll obtain k2 where r2: "r2 = Inr k2"
    by (cases r2) (auto simp: seed_posts_def Let_def)
  from assms l r ll r2 have e: "ps = ps1" "k = k2" "w' = w1\<lparr>conn := d2\<rparr>"
    by (auto simp: seed_posts_def Let_def)
  from likes_loop_Inr [OF ll [unfolded r2]]
  have d2: "d2 = (conn w1)\<lparr>post_votes := post_votes (conn w1) @ new_likes us ?L ?luc (enumerate 0 ps1)\<rparr>"
    and k2: "k2 = length (filter (liked ?L ?luc) (enumerate 0 ps1))"
    by simp_all
  have pv: "post_votes (add_posts bt (fst ?G) (conn w)) = post_votes (conn w)"
    by (simp add: add_posts_def)
  show ?thesis
    using e ps1 mem d2 k2 pv by (simp add: w1)
qed

lemma max_seq_users [simp]: "max_seq ''users'' d = Inr (max_user_seq d)"
  by (simp add: max_seq_def max_user_seq_def)

lemma max_seq_posts [simp]: "max_seq ''posts'' d = Inr (max_post_seq d)"
  by (simp add: max_seq_def max_post_seq_def)

lemma floor_counter_fields [simp]:
  "users (floor_counter name m d) = users d"
  "accounts (floor_counter name m d) = accounts d"
  "boards (floor_counter name m d) = boards d"
  "posts (floor_counter name m d) = posts d"
  "post_votes (floor_counter name m d) = post_votes d"
  by (simp_all add: floor_counter_def update_counter_def insert_or_ignore_counter_def
      split: option.splits)

lemma max_post_seq_floor_counter [simp]:
  "max_post_seq (floor_counter name m d) = max_post_seq d"
  by (simp add: max_post_seq_def)

lemma fits_int64_sint: "fits_int64 (sint (x :: sqlite_integer))"
  using sint_ge [of x] sint_lt [of x] by (simp add: fits_int64_def)

lemma fits_int64_Max:
  assumes "xs \<noteq> []"
  shows "fits_int64 (Max (set (map (\<lambda>r. sint (f r :: sqlite_integer)) xs)))"
proof -
  have "Max (set (map (\<lambda>r. sint (f r)) xs)) \<in> set (map (\<lambda>r. sint (f r)) xs)"
    using assms by (intro Max_in) simp_all
  then show ?thesis by (auto simp: fits_int64_sint)
qed

lemma fits_max_user_seq [simp]: "fits_int64 (max_user_seq d)"
proof (cases "users d = []")
  case True
  then show ?thesis by (simp add: max_user_seq_def fits_int64_def)
next
  case False
  from fits_int64_Max [OF False, of user_seq] False show ?thesis
    by (simp add: max_user_seq_def)
qed

lemma fits_max_post_seq [simp]: "fits_int64 (max_post_seq d)"
proof (cases "posts d = []")
  case True
  then show ?thesis by (simp add: max_post_seq_def fits_int64_def)
next
  case False
  from fits_int64_Max [OF False, of post_seq] False show ?thesis
    by (simp add: max_post_seq_def)
qed

lemma seed_all_unfold:
  "seed_all lib sch ev a w =
     (case seed_users lib sch (now_seed_users ev) (arg_users a) (now_run_id ev)
             (w\<lparr>conn := raise_counters (conn w)\<rparr>) of
        (Inl e, w3) \<Rightarrow> (Inl e, w3)
      | (Inr user_ids, w3) \<Rightarrow>
          (case seed_posts lib sch (now_seed_posts ev) (arg_posts a) user_ids
                  (fetch_board_ids (conn w3)) (arg_likes_per_post a) (arg_liked_every a) w3 of
             (Inl e, w4) \<Rightarrow> (Inl e, w4)
           | (Inr (ps, liked_posts), w4) \<Rightarrow> (Inr (user_ids, ps, liked_posts), w4)))"
  by (simp add: seed_all_def raise_counters_def Let_def ensure_counter_at_least_fits
      cong: prod.case_cong sum.case_cong)

lemma raise_counters_fields [simp]:
  "users (raise_counters d) = users d"
  "accounts (raise_counters d) = accounts d"
  "boards (raise_counters d) = boards d"
  "posts (raise_counters d) = posts d"
  "post_votes (raise_counters d) = post_votes d"
  by (simp_all add: raise_counters_def)

lemma add_users_fields [simp]:
  "boards (add_users bt rid rows d) = boards d"
  "posts (add_users bt rid rows d) = posts d"
  "post_votes (add_users bt rid rows d) = post_votes d"
  "counter_value (add_users bt rid rows d) ''post'' = counter_value d ''post''"
  by (simp_all add: add_users_def counter_value_def)

lemma fetch_board_ids_cong: "boards d = boards d' \<Longrightarrow> fetch_board_ids d = fetch_board_ids d'"
  by (simp add: fetch_board_ids_def)

lemma seed_all_disk: "disk (snd (seed_all lib sch ev a w)) = disk w"
proof -
  let ?w2 = "w\<lparr>conn := raise_counters (conn w)\<rparr>"
  obtain r3 w3 where u: "seed_users lib sch (now_seed_users ev) (arg_users a) (now_run_id ev) ?w2 = (r3, w3)"
    by (cases "seed_users lib sch (now_seed_users ev) (arg_users a) (now_run_id ev) ?w2")
  have d3: "disk w3 = disk w"
    using seed_users_disk [of lib sch "now_seed_users ev" "arg_users a" "now_run_id ev" ?w2] u
    by simp
  show ?thesis
  proof (cases r3)
    case (Inl e)
    with u d3 show ?thesis by (simp add: seed_all_unfold)
  next
    case (Inr uids)
    obtain r4 w4 where p: "seed_posts lib sch (now_seed_posts ev) (arg_posts a) uids
        (fetch_board_ids (conn w3)) (arg_likes_per_post a) (arg_liked_every a) w3 = (r4, w4)"
      by (cases "seed_posts lib sch (now_seed_posts ev) (arg_posts a) uids
        (fetch_board_ids (conn w3)) (arg_likes_per_post a) (arg_liked_every a) w3")
    have d4: "disk w4 = disk w3"
      using seed_posts_disk [of lib sch "now_seed_posts ev" "arg_posts a" uids
        "fetch_board_ids (conn w3)" "arg_likes_per_post a" "arg_liked_every a" w3] p by simp
    from u Inr p d3 d4 show ?thesis
      by (simp add: seed_all_unfold split: sum.split prod.split)
  qed
qed

lemma seed_users_loop_fits:
  assumes "seed_users_loop lib sch bt rid idxs acc w = (Inr uids, w')"
  shows "\<forall>r \<in> set (fst (gen_users lib idxs (counter_value (conn w) ''user'') (rng w))).
           fits_int64 (fst (snd r))"
  using assms
proof (induction idxs arbitrary: acc w)
  case Nil
  show ?case by simp
next
  case (Cons i rest)
  let ?c = "counter_value (conn w) ''user''"
  obtain r w1 where b: "seed_users_body lib sch bt rid i w = (r, w1)"
    by (cases "seed_users_body lib sch bt rid i w")
  from Cons.prems b obtain uid where r: "r = Inr uid"
    by (cases r) auto
  from Cons.prems b r
  have rest: "seed_users_loop lib sch bt rid rest (acc @ [uid]) w1 = (Inr uids, w')"
    by simp
  from seed_users_body_Inr [OF b [unfolded r]] obtain days g1 where
    d: "randint lib 0 90 (rng w) = (days, g1)" and
    f: "fits_int64 (?c + 1)" and
    w1: "w1 = w\<lparr>conn := (conn w)\<lparr>counters := (counters (conn w))(''user'' \<mapsto> ?c + 1),
                                    users := users (conn w) @ [new_user bt i (?c + 1) days],
                                    accounts := accounts (conn w) @ [new_account rid i (?c + 1)]\<rparr>,
                  rng := g1\<rparr>"
    by blast
  have c1: "counter_value (conn w1) ''user'' = ?c + 1"
    by (simp add: w1 counter_value_def)
  have g: "rng w1 = g1" by (simp add: w1)
  have gen: "fst (gen_users lib (i # rest) ?c (rng w))
             = (i, ?c + 1, days) # fst (gen_users lib rest (?c + 1) g1)"
    by (simp add: d split: prod.splits)
  from Cons.IH [OF rest] f show ?case
    unfolding gen by (simp add: c1 g)
qed

lemma seed_posts_loop_fits:
  assumes "seed_posts_loop lib sch bt us bs idxs acc w = (Inr ps, w')"
  shows "\<forall>r \<in> set (fst (gen_posts lib us bs idxs (counter_value (conn w) ''post'') (rng w))).
           fits_int64 (fst (snd r))"
  using assms
proof (induction idxs arbitrary: acc w)
  case Nil
  show ?case by simp
next
  case (Cons i rest)
  let ?c = "counter_value (conn w) ''post''"
  obtain r w1 where b: "seed_posts_body lib sch bt us bs i w = (r, w1)"
    by (cases "seed_posts_body lib sch bt us bs i w")
  from Cons.prems b obtain p where r: "r = Inr p"
    by (cases r) auto
  from Cons.prems b r
  have rest: "seed_posts_loop lib sch bt us bs rest (acc @ [p]) w1 = (Inr ps, w')"
    by simp
  from seed_posts_body_Inr [OF b [unfolded r]] obtain rb g1 ra g2 days g3 seconds g4 where
    rb: "randbelow lib (rng w) (length bs) = (rb, g1)" and
    ra: "randbelow lib g1 (length us) = (ra, g2)" and
    dd: "randint lib 0 30 g2 = (days, g3)" and ss: "randint lib 0 86400 g3 = (seconds, g4)" and
    f: "fits_int64 (?c + 1)" and
    w1: "w1 = w\<lparr>conn := (conn w)\<lparr>counters := (counters (conn w))(''post'' \<mapsto> ?c + 1),
                                    posts := posts (conn w) @ [new_post bt (i, ?c + 1, bs ! rb, us ! ra, days, seconds)]\<rparr>,
                  rng := g4\<rparr>"
    by blast
  have c1: "counter_value (conn w1) ''post'' = ?c + 1"
    by (simp add: w1 counter_value_def)
  have g: "rng w1 = g4" by (simp add: w1)
  have gen: "fst (gen_posts lib us bs (i # rest) ?c (rng w))
             = (i, ?c + 1, bs ! rb, us ! ra, days, seconds)
               # fst (gen_posts lib us bs rest (?c + 1) g4)"
    by (simp add: rb ra dd ss split: prod.splits)
  from Cons.IH [OF rest] f show ?case
    unfolding gen by (simp add: c1 g)
qed

lemma seed_posts_loop_of_seed_posts:
  assumes "seed_posts lib sch bt count us bs lpp le w = (Inr (ps, k), w')"
  shows "\<exists>w1. seed_posts_loop lib sch bt us bs [0..<nat count] [] w = (Inr ps, w1)"
proof -
  obtain r w1 where l: "seed_posts_loop lib sch bt us bs [0..<nat count] [] w = (r, w1)"
    by (cases "seed_posts_loop lib sch bt us bs [0..<nat count] [] w")
  with assms obtain ps1 where r: "r = Inr ps1"
    by (cases r) (auto simp: seed_posts_def)
  from assms l r have "ps1 = ps"
    by (auto simp: seed_posts_def Let_def split: prod.splits sum.splits)
  with l r show ?thesis by blast
qed

lemma seed_all_Inr:
  assumes "seed_all lib sch ev a \<lparr>disk = d0, conn = d0, rng = random_seed lib 42\<rparr>
             = (Inr (uids, ps, k), w')"
  shows "uids = seeded_user_ids lib a d0"
    and "ps = map (post_key (now_seed_posts ev)) (fst (seeded_posts lib a d0))"
    and "k = seeded_liked_posts lib ev a d0"
    and "conn w' = seeded_db lib ev a d0"
    and "\<forall>(i, seq, bid, author, days, seconds) \<in> set (fst (seeded_posts lib a d0)).
               bid \<in> set (fetch_board_ids d0) \<and> author \<in> set (seeded_user_ids lib a d0)"
    and "\<forall>r \<in> set (fst (seeded_users lib a d0)). fits_int64 (fst (snd r))"
    and "\<forall>r \<in> set (fst (seeded_posts lib a d0)). fits_int64 (fst (snd r))"
proof -
  let ?w = "\<lparr>disk = d0, conn = d0, rng = random_seed lib 42\<rparr>"
  let ?w2 = "?w\<lparr>conn := raise_counters d0\<rparr>"
  obtain r3 w3 where u: "seed_users lib sch (now_seed_users ev) (arg_users a) (now_run_id ev) ?w2 = (r3, w3)"
    by (cases "seed_users lib sch (now_seed_users ev) (arg_users a) (now_run_id ev) ?w2")
  from assms u obtain uids3 where r3: "r3 = Inr uids3"
    by (cases r3) (auto simp: seed_all_unfold)
  from seed_users_loop_Inr [OF u [unfolded r3 seed_users_def]]
  have w3: "w3 = ?w2\<lparr>conn := add_users (now_seed_users ev) (now_run_id ev) (fst (seeded_users lib a d0)) (raise_counters d0),
                     rng := snd (seeded_users lib a d0)\<rparr>"
    and uids3: "uids3 = seeded_user_ids lib a d0"
    by (simp_all add: seeded_users_def seeded_user_ids_def)
  have fb: "fetch_board_ids (conn w3) = fetch_board_ids d0"
    by (rule fetch_board_ids_cong) (simp add: w3)
  obtain r4 w4 where p: "seed_posts lib sch (now_seed_posts ev) (arg_posts a) uids3
        (fetch_board_ids d0) (arg_likes_per_post a) (arg_liked_every a) w3 = (r4, w4)"
    by (cases "seed_posts lib sch (now_seed_posts ev) (arg_posts a) uids3
        (fetch_board_ids d0) (arg_likes_per_post a) (arg_liked_every a) w3")
  from assms u r3 p fb obtain ps4 k4 where r4: "r4 = Inr (ps4, k4)"
    by (cases r4) (auto simp: seed_all_unfold)
  from assms u r3 p fb r4 have e: "uids = uids3" "ps = ps4" "k = k4" "w' = w4"
    by (auto simp: seed_all_unfold)
  have c3: "counter_value (conn w3) ''post'' = counter_value (raise_counters d0) ''post''"
    by (simp add: w3)
  have g3: "rng w3 = snd (seeded_users lib a d0)" by (simp add: w3)
  have gp: "gen_posts lib uids3 (fetch_board_ids d0) [0..<nat (arg_posts a)]
              (counter_value (conn w3) ''post'') (rng w3) = seeded_posts lib a d0"
    by (simp add: seeded_posts_def c3 g3 uids3)
  note sp = seed_posts_Inr [OF p [unfolded r4], unfolded gp]
  show "uids = seeded_user_ids lib a d0" using e uids3 by simp
  show "ps = map (post_key (now_seed_posts ev)) (fst (seeded_posts lib a d0))"
    using sp e by simp
  show "k = seeded_liked_posts lib ev a d0"
    using sp e uids3 by (simp add: seeded_liked_posts_def)
  show "conn w' = seeded_db lib ev a d0"
    using sp e uids3 by (simp add: seeded_db_def seeded_likes_def w3)
  show "\<forall>(i, seq, bid, author, days, seconds) \<in> set (fst (seeded_posts lib a d0)).
               bid \<in> set (fetch_board_ids d0) \<and> author \<in> set (seeded_user_ids lib a d0)"
    using sp uids3 by simp
  show "\<forall>r \<in> set (fst (seeded_users lib a d0)). fits_int64 (fst (snd r))"
    using seed_users_loop_fits [OF u [unfolded r3 seed_users_def]]
    by (simp add: seeded_users_def)
  from seed_posts_loop_of_seed_posts [OF p [unfolded r4]] obtain w5 where
    "seed_posts_loop lib sch (now_seed_posts ev) uids3 (fetch_board_ids d0)
       [0..<nat (arg_posts a)] [] w3 = (Inr ps4, w5)"
    by blast
  from seed_posts_loop_fits [OF this]
  show "\<forall>r \<in> set (fst (seeded_posts lib a d0)). fits_int64 (fst (snd r))"
    unfolding gp .
qed

lemma main_failed:
  assumes "status (main lib sch ev a d0) \<noteq> Exit 0"
  shows "final_db (main lib sch ev a d0) = d0"
proof (cases "path_exists ev")
  case False
  then show ?thesis by (simp add: main_def)
next
  case True
  let ?w = "\<lparr>disk = d0, conn = d0, rng = random_seed lib 42\<rparr>"
  obtain r w' where b: "seed_all lib sch ev a ?w = (r, w')"
    by (cases "seed_all lib sch ev a ?w")
  have d: "disk w' = d0" using seed_all_disk [of lib sch ev a ?w] b by simp
  from assms True b obtain e where "r = Inl e"
    by (cases r) (auto simp: main_def with_conn_def split: prod.splits)
  with True b d show ?thesis by (simp add: main_def with_conn_def)
qed

lemma main_Exit_0:
  assumes "status (main lib sch ev a d0) = Exit 0"
  shows "final_db (main lib sch ev a d0) = seeded_db lib ev a d0"
    and "stdout (main lib sch ev a d0) =
           summary_line (length (seeded_user_ids lib a d0)) (length (fst (seeded_posts lib a d0)))
             (seeded_liked_posts lib ev a d0)
           # (if arg_likes_per_post a > int (length (seeded_user_ids lib a d0))
              then [warning_line (length (seeded_user_ids lib a d0))] else [])"
    and "\<forall>(i, seq, bid, author, days, seconds) \<in> set (fst (seeded_posts lib a d0)).
               bid \<in> set (fetch_board_ids d0) \<and> author \<in> set (seeded_user_ids lib a d0)"
    and "\<forall>r \<in> set (fst (seeded_users lib a d0)). fits_int64 (fst (snd r))"
    and "\<forall>r \<in> set (fst (seeded_posts lib a d0)). fits_int64 (fst (snd r))"
proof -
  let ?w = "\<lparr>disk = d0, conn = d0, rng = random_seed lib 42\<rparr>"
  from assms have pe: "path_exists ev" by (auto simp: main_def split: if_splits)
  obtain r w' where b: "seed_all lib sch ev a ?w = (r, w')"
    by (cases "seed_all lib sch ev a ?w")
  from assms pe b obtain uids ps k where r: "r = Inr (uids, ps, k)"
    by (cases r) (auto simp: main_def with_conn_def)
  note s = seed_all_Inr [OF b [unfolded r]]
  show "final_db (main lib sch ev a d0) = seeded_db lib ev a d0"
    using pe b r s(4) by (simp add: main_def with_conn_def)
  show "stdout (main lib sch ev a d0) =
           summary_line (length (seeded_user_ids lib a d0)) (length (fst (seeded_posts lib a d0)))
             (seeded_liked_posts lib ev a d0)
           # (if arg_likes_per_post a > int (length (seeded_user_ids lib a d0))
              then [warning_line (length (seeded_user_ids lib a d0))] else [])"
    using pe b r s(1,2,3) by (simp add: main_def with_conn_def)
  show "\<forall>(i, seq, bid, author, days, seconds) \<in> set (fst (seeded_posts lib a d0)).
               bid \<in> set (fetch_board_ids d0) \<and> author \<in> set (seeded_user_ids lib a d0)"
    by (rule s(5))
  show "\<forall>r \<in> set (fst (seeded_users lib a d0)). fits_int64 (fst (snd r))"
    by (rule s(6))
  show "\<forall>r \<in> set (fst (seeded_posts lib a d0)). fits_int64 (fst (snd r))"
    by (rule s(7))
qed

lemma choice_Inl: "choice lib xs g = (Inl e, g') \<Longrightarrow> e = IndexError"
  by (auto simp: choice_def split: if_splits prod.splits)

text \<open>
  C6. When the database path does not exist, the run writes nothing: the database is
  left as it was, the message goes to the error stream, nothing goes to the standard
  output, and the status is 1.
\<close>

theorem main_missing_database:
  "\<not> path_exists ev \<Longrightarrow>
     final_db (main lib sch ev a d0) = d0 \<and> stdout (main lib sch ev a d0) = []
     \<and> stderr (main lib sch ev a d0) = [''Database not found: '' @ arg_db a]
     \<and> status (main lib sch ev a d0) = Exit 1"
  by (simp add: main_def)

theorem main_missing_database_witness:
  "\<not> path_exists (demo_env\<lparr>path_exists := False\<rparr>)
   \<and> final_db (main demo_lib demo_schema (demo_env\<lparr>path_exists := False\<rparr>) demo_args demo_db) = demo_db
   \<and> stderr (main demo_lib demo_schema (demo_env\<lparr>path_exists := False\<rparr>) demo_args demo_db)
       = [''Database not found: dev.db'']
   \<and> status (main demo_lib demo_schema (demo_env\<lparr>path_exists := False\<rparr>) demo_args demo_db) = Exit 1"
  using main_missing_database [of "demo_env\<lparr>path_exists := False\<rparr>" demo_lib demo_schema demo_args demo_db]
  by (simp add: demo_args_def)

text \<open>
  C1. A run that ends with an exception (an insert that fails in the middle of the
  batch, or any other error raised inside the transaction) leaves the database file
  exactly as it was before the run: counters, users, accounts, posts and likes. The
  example after the theorem is a run whose second post violates a constraint, after
  two users, two accounts and one post were written through the connection.
\<close>

theorem main_rollback:
  "status (main lib sch ev a d0) = Raised e \<Longrightarrow>
     final_db (main lib sch ev a d0) = d0 \<and> stdout (main lib sch ev a d0) = []"
proof -
  assume r: "status (main lib sch ev a d0) = Raised e"
  then have "final_db (main lib sch ev a d0) = d0"
    using main_failed [of lib sch ev a d0] by simp
  moreover from r have "stdout (main lib sch ev a d0) = []"
    by (auto simp: main_def split: if_splits prod.splits sum.splits)
  ultimately show ?thesis by simp
qed

lemmas run_defs =
  main_def with_conn_def seed_all_def seed_users_def seed_posts_def
  seed_users_body_def seed_posts_body_unfold next_counter_eq counter_value_def
  raise_counters_def max_user_seq_def max_post_seq_def ensure_counter_at_least_def
  floor_counter_def fits_int64_def sqlite_add1_def
  update_counter_def insert_or_ignore_counter_def insert_users_def insert_accounts_def
  insert_posts_def insert_post_votes_def randint_def choice_def fetch_board_ids_def
  upt_conv_Cons Let_def new_post_def posts_values_def users_values_def accounts_values_def
  post_votes_values_def post_key_def

lemmas demo_defs =
  demo_lib_def demo_schema_def strict_schema_def demo_db_def demo_env_def demo_args_def

theorem main_rollback_witness:
  "status (main demo_lib strict_schema demo_env demo_args demo_db) = Raised IntegrityError
   \<and> final_db (main demo_lib strict_schema demo_env demo_args demo_db) = demo_db
   \<and> stdout (main demo_lib strict_schema demo_env demo_args demo_db) = []"
proof -
  have h: "status (main demo_lib strict_schema demo_env demo_args demo_db) = Raised IntegrityError"
    by (simp add: run_defs demo_defs)
  show ?thesis using h main_rollback [OF h] by simp
qed

lemma length_gen_users [simp]: "length (fst (gen_users lib idxs c g)) = length idxs"
proof (induction idxs arbitrary: c g)
  case Nil
  show ?case by simp
next
  case (Cons i rest)
  then show ?case by (auto split: prod.splits) (metis fst_conv)
qed

lemma length_gen_posts [simp]: "length (fst (gen_posts lib us bs idxs c g)) = length idxs"
proof (induction idxs arbitrary: c g)
  case Nil
  show ?case by simp
next
  case (Cons i rest)
  then show ?case by (auto split: prod.splits) (metis fst_conv)
qed

lemma gen_users_seq_bounds:
  "(i, seq, days) \<in> set (fst (gen_users lib idxs c g)) \<Longrightarrow> c < seq \<and> seq \<le> c + int (length idxs)"
proof (induction idxs arbitrary: c g)
  case Nil
  then show ?case by simp
next
  case (Cons j rest)
  obtain days1 g1 where d: "randint lib 0 90 g = (days1, g1)" by (cases "randint lib 0 90 g")
  from Cons.prems d
  have "(i, seq, days) = (j, c + 1, days1) \<or> (i, seq, days) \<in> set (fst (gen_users lib rest (c + 1) g1))"
    by (auto split: prod.splits)
  then show ?case
  proof
    assume "(i, seq, days) = (j, c + 1, days1)"
    then show ?thesis by simp
  next
    assume "(i, seq, days) \<in> set (fst (gen_users lib rest (c + 1) g1))"
    from Cons.IH [OF this] show ?thesis by simp
  qed
qed

lemma gen_posts_seq_bounds:
  "(i, seq, rest6) \<in> set (fst (gen_posts lib us bs idxs c g)) \<Longrightarrow>
     c < seq \<and> seq \<le> c + int (length idxs)"
proof (induction idxs arbitrary: c g)
  case Nil
  then show ?case by simp
next
  case (Cons j rest)
  obtain rb g1 where b: "randbelow lib g (length bs) = (rb, g1)"
    by (cases "randbelow lib g (length bs)")
  obtain ra g2 where a: "randbelow lib g1 (length us) = (ra, g2)"
    by (cases "randbelow lib g1 (length us)")
  obtain days g3 where d: "randint lib 0 30 g2 = (days, g3)" by (cases "randint lib 0 30 g2")
  obtain secs g4 where s: "randint lib 0 86400 g3 = (secs, g4)"
    by (cases "randint lib 0 86400 g3")
  from Cons.prems b a d s
  have "(i, seq, rest6) = (j, c + 1, bs ! rb, us ! ra, days, secs)
        \<or> (i, seq, rest6) \<in> set (fst (gen_posts lib us bs rest (c + 1) g4))"
    by (auto split: prod.splits)
  then show ?case
  proof
    assume "(i, seq, rest6) = (j, c + 1, bs ! rb, us ! ra, days, secs)"
    then show ?thesis by simp
  next
    assume "(i, seq, rest6) \<in> set (fst (gen_posts lib us bs rest (c + 1) g4))"
    from Cons.IH [OF this] show ?thesis by simp
  qed
qed

lemma raise_counters_counters:
  "counters (raise_counters d) =
     (counters d)(''user'' \<mapsto> counter_floor d ''user'' (max_user_seq d),
                  ''post'' \<mapsto> counter_floor d ''post'' (max_post_seq d))"
  by (simp add: raise_counters_def floor_counter_counters counter_floor_def)

lemma counter_value_raise_counters [simp]:
  "counter_value (raise_counters d) ''user'' = counter_floor d ''user'' (max_user_seq d)"
  "counter_value (raise_counters d) ''post'' = counter_floor d ''post'' (max_post_seq d)"
  by (simp_all add: counter_value_def raise_counters_counters)

lemma seeded_db_counters:
  "counters (seeded_db lib ev a d0) =
     (counters d0)(''user'' \<mapsto> counter_floor d0 ''user'' (max_user_seq d0) + int (nat (arg_users a)),
                   ''post'' \<mapsto> counter_floor d0 ''post'' (max_post_seq d0) + int (nat (arg_posts a)))"
proof -
  have lu: "length (fst (seeded_users lib a d0)) = nat (arg_users a)"
    by (simp add: seeded_users_def)
  have lp: "length (fst (seeded_posts lib a d0)) = nat (arg_posts a)"
    by (simp add: seeded_posts_def)
  show ?thesis
    unfolding seeded_db_def add_posts_def add_users_def
    using lu lp
    by (auto simp: counter_value_def raise_counters_counters fun_eq_iff)
qed

lemma seeded_db_users:
  "users (seeded_db lib ev a d0) =
     users d0 @ map (\<lambda>(i, seq, days). new_user (now_seed_users ev) i seq days)
                    (fst (seeded_users lib a d0))"
  by (simp add: seeded_db_def add_posts_def add_users_def)

lemma seeded_db_accounts:
  "accounts (seeded_db lib ev a d0) =
     accounts d0 @ map (\<lambda>(i, seq, days). new_account (now_run_id ev) i seq)
                    (fst (seeded_users lib a d0))"
  by (simp add: seeded_db_def add_posts_def add_users_def)

lemma seeded_db_posts:
  "posts (seeded_db lib ev a d0) =
     posts d0 @ map (new_post (now_seed_posts ev)) (fst (seeded_posts lib a d0))"
  by (simp add: seeded_db_def add_posts_def add_users_def)

lemma seeded_db_post_votes:
  "post_votes (seeded_db lib ev a d0) = post_votes d0 @ seeded_likes lib ev a d0"
  by (simp add: seeded_db_def)

lemma seeded_db_boards: "boards (seeded_db lib ev a d0) = boards d0"
  by (simp add: seeded_db_def add_posts_def add_users_def)

lemma inserted_users_seeded:
  "inserted_users d0 (seeded_db lib ev a d0) =
     map (\<lambda>(i, seq, days). new_user (now_seed_users ev) i seq days) (fst (seeded_users lib a d0))"
  by (simp add: inserted_users_def seeded_db_users)

lemma inserted_posts_seeded:
  "inserted_posts d0 (seeded_db lib ev a d0) =
     map (new_post (now_seed_posts ev)) (fst (seeded_posts lib a d0))"
  by (simp add: inserted_posts_def seeded_db_posts)

lemma inserted_post_votes_seeded:
  "inserted_post_votes d0 (seeded_db lib ev a d0) = seeded_likes lib ev a d0"
  by (simp add: inserted_post_votes_def seeded_db_post_votes)

lemma inserted_same [simp]:
  "inserted_users d d = []" "inserted_posts d d = []" "inserted_post_votes d d = []"
  by (simp_all add: inserted_users_def inserted_posts_def inserted_post_votes_def)

lemma new_user_fields [simp]:
  "user_seq (new_user bt i seq days) = word_of_int seq"
  "user_id (new_user bt i seq days) = ''u_'' @ str_int seq"
  by (simp_all add: new_user_def users_values_def)

lemma new_post_fields [simp]:
  "post_seq (new_post bt (i, seq, bid, author, days, secs)) = word_of_int seq"
  "post_id (new_post bt (i, seq, bid, author, days, secs)) = ''p_'' @ str_int seq"
  "post_board_id (new_post bt (i, seq, bid, author, days, secs)) = bid"
  "post_author_id (new_post bt (i, seq, bid, author, days, secs)) = author"
  by (simp_all add: new_post_def posts_values_def)

text \<open>
  C7, as amended. A successful run appends to the users table as many rows as
  requested when the requested count is not negative, and none when it is negative
  (\<^verbatim>\<open>range(count)\<close> is then empty); the same holds for posts. Rows that were there
  before the run stay in front, unchanged.
\<close>

theorem inserted_row_counts:
  "status (main lib sch ev a d0) = Exit 0 \<Longrightarrow>
     users (final_db (main lib sch ev a d0))
       = users d0 @ inserted_users d0 (final_db (main lib sch ev a d0))
     \<and> int (length (inserted_users d0 (final_db (main lib sch ev a d0)))) = max 0 (arg_users a)
     \<and> posts (final_db (main lib sch ev a d0))
       = posts d0 @ inserted_posts d0 (final_db (main lib sch ev a d0))
     \<and> int (length (inserted_posts d0 (final_db (main lib sch ev a d0)))) = max 0 (arg_posts a)"
proof -
  assume "status (main lib sch ev a d0) = Exit 0"
  then have f: "final_db (main lib sch ev a d0) = seeded_db lib ev a d0"
    by (rule main_Exit_0(1))
  have lu: "length (fst (seeded_users lib a d0)) = nat (arg_users a)"
    by (simp add: seeded_users_def)
  have lp: "length (fst (seeded_posts lib a d0)) = nat (arg_posts a)"
    by (simp add: seeded_posts_def)
  show ?thesis
    unfolding f inserted_users_seeded inserted_posts_seeded
    by (simp add: seeded_db_users seeded_db_posts lu lp)
qed

lemma in_set_py_range:
  "0 < step \<Longrightarrow> i \<in> set (py_range start stop step) \<longleftrightarrow>
     start \<le> i \<and> i < stop \<and> (i - start) mod step = 0"
proof (induction start stop step rule: py_range.induct)
  case (1 start stop step)
  show ?case
  proof (cases "start < stop")
    case False
    with "1.prems" show ?thesis by (simp add: py_range.simps [of start stop step])
  next
    case True
    with "1.prems" have IH: "i \<in> set (py_range (start + step) stop step) \<longleftrightarrow>
        start + step \<le> i \<and> i < stop \<and> (i - (start + step)) mod step = 0"
      using "1.IH" by simp
    have m: "(i - (start + step)) mod step = (i - start) mod step"
      by (metis add_diff_cancel_right' diff_diff_eq mod_add_self2 diff_add_cancel)
    have "i = start \<or> start + step \<le> i \<and> (i - start) mod step = 0
          \<longleftrightarrow> start \<le> i \<and> (i - start) mod step = 0"
    proof (cases "i < start + step")
      case False
      with "1.prems" show ?thesis by auto
    next
      case lt: True
      show ?thesis
      proof (cases "start \<le> i")
        case False
        with lt show ?thesis by auto
      next
        case ge: True
        with lt have "(i - start) mod step = i - start" by simp
        with lt ge show ?thesis by auto
      qed
    qed
    then have E: "i = start \<or> start + step \<le> i \<and> i < stop \<and> (i - start) mod step = 0
          \<longleftrightarrow> start \<le> i \<and> i < stop \<and> (i - start) mod step = 0"
      using True by auto
    have "i \<in> set (py_range start stop step)
          \<longleftrightarrow> i = start \<or> i \<in> set (py_range (start + step) stop step)"
      using True "1.prems" by (simp add: py_range.simps [of start stop step])
    then show ?thesis
      unfolding IH m using E by simp
  qed
qed

lemmas likes_defs =
  in_set_py_range new_likes_def liked_def like_rows_def

lemma demo_run_status: "status (main demo_lib demo_schema demo_env demo_args demo_db) = Exit 0"
  by (simp add: run_defs demo_defs likes_defs)

theorem inserted_row_counts_witness:
  "status (main demo_lib demo_schema demo_env demo_args demo_db) = Exit 0
   \<and> int (length (inserted_users demo_db
        (final_db (main demo_lib demo_schema demo_env demo_args demo_db)))) = 2
   \<and> int (length (inserted_posts demo_db
        (final_db (main demo_lib demo_schema demo_env demo_args demo_db)))) = 3"
proof -
  have h: "status (main demo_lib demo_schema demo_env demo_args demo_db) = Exit 0"
    by (rule demo_run_status)
  show ?thesis using h inserted_row_counts [OF h] by (simp add: demo_args_def)
qed

theorem inserted_row_counts_counterexample:
  "status (main demo_lib demo_schema demo_env negative_args demo_db) = Exit 0
   \<and> int (length (inserted_users demo_db
        (final_db (main demo_lib demo_schema demo_env negative_args demo_db))))
       \<noteq> arg_users negative_args"
  by (simp add: run_defs demo_defs likes_defs negative_args_def inserted_users_def)

lemma set_fetch_board_ids:
  "set (fetch_board_ids d) =
     (if boards d = [] then {''b_1'', ''b_2'', ''b_3''} else set (map board_id (boards d)))"
proof -
  have "sort_key (\<lambda>r. sint (board_seq r)) (boards d) = [] \<longleftrightarrow> boards d = []"
    by (metis length_sort length_0_conv)
  then show ?thesis by (simp add: fetch_board_ids_def Let_def)
qed

lemma seeded_user_ids_inserted:
  "seeded_user_ids lib a d0 = map user_id (inserted_users d0 (seeded_db lib ev a d0))"
  by (simp add: seeded_user_ids_def inserted_users_seeded split_def)

lemma demo_run_final:
  "final_db (main demo_lib demo_schema demo_env demo_args demo_db)
     = seeded_db demo_lib demo_env demo_args demo_db"
  by (rule main_Exit_0(1) [OF demo_run_status])

lemma demo_run_posts:
  "length (inserted_posts demo_db (final_db (main demo_lib demo_schema demo_env demo_args demo_db))) = 3"
  unfolding demo_run_final inserted_posts_seeded
  by (simp add: seeded_posts_def demo_args_def)

text \<open>
  C8. Every post row that a run adds has an author among the identifiers of the user
  rows added by the same run, and a board among the identifiers of the boards table as
  it was before the run, or among \<^verbatim>\<open>b_1\<close>, \<^verbatim>\<open>b_2\<close>, \<^verbatim>\<open>b_3\<close> when that table is empty.
\<close>

theorem post_author_and_board:
  "\<forall>p \<in> set (inserted_posts d0 (final_db (main lib sch ev a d0))).
     post_author_id p \<in> set (map user_id (inserted_users d0 (final_db (main lib sch ev a d0))))
     \<and> post_board_id p
         \<in> (if boards d0 = [] then {''b_1'', ''b_2'', ''b_3''} else set (map board_id (boards d0)))"
proof (cases "status (main lib sch ev a d0) = Exit 0")
  case False
  then have "final_db (main lib sch ev a d0) = d0" by (rule main_failed)
  then show ?thesis by simp
next
  case True
  have f: "final_db (main lib sch ev a d0) = seeded_db lib ev a d0"
    by (rule main_Exit_0(1) [OF True])
  note m = main_Exit_0(3) [OF True]
  show ?thesis
    unfolding f
  proof
    fix p
    assume "p \<in> set (inserted_posts d0 (seeded_db lib ev a d0))"
    then obtain r where r: "r \<in> set (fst (seeded_posts lib a d0))"
      and p: "p = new_post (now_seed_posts ev) r"
      by (auto simp: inserted_posts_seeded)
    obtain i seq bid author days secs where t: "r = (i, seq, bid, author, days, secs)"
      by (cases r)
    from m r t have "bid \<in> set (fetch_board_ids d0)" "author \<in> set (seeded_user_ids lib a d0)"
      by auto
    then show "post_author_id p \<in> set (map user_id (inserted_users d0 (seeded_db lib ev a d0)))
      \<and> post_board_id p
         \<in> (if boards d0 = [] then {''b_1'', ''b_2'', ''b_3''} else set (map board_id (boards d0)))"
      unfolding p t new_post_fields set_fetch_board_ids [symmetric]
        seeded_user_ids_inserted [of lib a d0 ev, symmetric]
      by simp
  qed
qed

theorem post_author_and_board_witness:
  "inserted_posts demo_db (final_db (main demo_lib demo_schema demo_env demo_args demo_db)) \<noteq> []
   \<and> set (map post_author_id (inserted_posts demo_db
              (final_db (main demo_lib demo_schema demo_env demo_args demo_db))))
       \<subseteq> set (map user_id (inserted_users demo_db
              (final_db (main demo_lib demo_schema demo_env demo_args demo_db))))
   \<and> set (map post_board_id (inserted_posts demo_db
              (final_db (main demo_lib demo_schema demo_env demo_args demo_db))))
       \<subseteq> {''b_1'', ''b_2'', ''b_3''}"
proof -
  have "boards demo_db = []" by (simp add: demo_db_def)
  with post_author_and_board [of demo_db demo_lib demo_schema demo_env demo_args] demo_run_posts
  show ?thesis by auto
qed

text \<open>
  C10. With an empty pool of users and at least one post requested, \<open>seed_posts\<close>
  raises \<^verbatim>\<open>IndexError\<close> in its first iteration, with no post row and no like added
  through the connection. A run with a requested user count of 0 or less and at least
  one post therefore ends with that exception, prints no summary and leaves the
  database as it was.
\<close>

theorem seed_posts_empty_pool:
  assumes "1 \<le> arg_posts a"
  shows "fst (seed_posts lib sch bt (arg_posts a) [] bs lpp le w) = Inl IndexError
    \<and> posts (conn (snd (seed_posts lib sch bt (arg_posts a) [] bs lpp le w))) = posts (conn w)
    \<and> post_votes (conn (snd (seed_posts lib sch bt (arg_posts a) [] bs lpp le w)))
        = post_votes (conn w)
    \<and> (path_exists ev \<and> arg_users a \<le> 0 \<longrightarrow>
         status (main lib sch ev a d0) = Raised IndexError
         \<and> final_db (main lib sch ev a d0) = d0
         \<and> stdout (main lib sch ev a d0) = [])"
proof -
  have body: "fst (seed_posts_body lib sch bt' [] bs' 0 w') = Inl IndexError
      \<and> posts (conn (snd (seed_posts_body lib sch bt' [] bs' 0 w'))) = posts (conn w')
      \<and> post_votes (conn (snd (seed_posts_body lib sch bt' [] bs' 0 w'))) = post_votes (conn w')"
    for bt' bs' and w' :: "'a world"
  proof -
    obtain rc g1 where c1: "choice lib bs' (rng w') = (rc, g1)"
      by (cases "choice lib bs' (rng w')")
    have c2: "choice lib ([] :: string list) g1 = (Inl IndexError, g1)"
      by (simp add: choice_def)
    obtain days g3 where d: "randint lib 0 30 g1 = (days, g3)" by (cases "randint lib 0 30 g1")
    obtain seconds g4 where s: "randint lib 0 86400 g3 = (seconds, g4)"
      by (cases "randint lib 0 86400 g3")
    show ?thesis
    proof (cases rc)
      case (Inl e)
      with c1 have "e = IndexError" by (auto dest: choice_Inl)
      with Inl show ?thesis
        unfolding seed_posts_body_unfold [OF c1 c2 d s] by (simp add: next_counter_eq)
    next
      case (Inr bid)
      then show ?thesis
        unfolding seed_posts_body_unfold [OF c1 c2 d s] by (simp add: next_counter_eq)
    qed
  qed
  have sp: "fst (seed_posts lib sch bt' (arg_posts a) [] bs' lpp' le' w') = Inl IndexError
      \<and> posts (conn (snd (seed_posts lib sch bt' (arg_posts a) [] bs' lpp' le' w'))) = posts (conn w')
      \<and> post_votes (conn (snd (seed_posts lib sch bt' (arg_posts a) [] bs' lpp' le' w')))
          = post_votes (conn w')"
    for bt' bs' lpp' le' and w' :: "'a world"
  proof -
    from assms have u: "[0..<nat (arg_posts a)] = 0 # [Suc 0..<nat (arg_posts a)]"
      by (simp add: upt_conv_Cons)
    obtain r w1 where b: "seed_posts_body lib sch bt' [] bs' 0 w' = (r, w1)"
      by (cases "seed_posts_body lib sch bt' [] bs' 0 w'")
    with body [of bt' bs' w'] have r: "r = Inl IndexError"
      and p: "posts (conn w1) = posts (conn w')" "post_votes (conn w1) = post_votes (conn w')"
      by simp_all
    show ?thesis
      by (simp add: seed_posts_def u b r p)
  qed
  have "status (main lib sch ev a d0) = Raised IndexError
         \<and> final_db (main lib sch ev a d0) = d0
         \<and> stdout (main lib sch ev a d0) = []"
    if pe: "path_exists ev" and au: "arg_users a \<le> 0"
  proof -
    let ?w = "\<lparr>disk = d0, conn = d0, rng = random_seed lib 42\<rparr>"
    let ?w2 = "?w\<lparr>conn := raise_counters d0\<rparr>"
    from au have su: "seed_users lib sch (now_seed_users ev) (arg_users a) (now_run_id ev) ?w2
        = (Inr [], ?w2)"
      by (simp add: seed_users_def)
    obtain r4 w4 where p: "seed_posts lib sch (now_seed_posts ev) (arg_posts a) []
        (fetch_board_ids (conn ?w2)) (arg_likes_per_post a) (arg_liked_every a) ?w2 = (r4, w4)"
      by (cases "seed_posts lib sch (now_seed_posts ev) (arg_posts a) []
        (fetch_board_ids (conn ?w2)) (arg_likes_per_post a) (arg_liked_every a) ?w2")
    with sp [of "now_seed_posts ev" "fetch_board_ids (conn ?w2)" "arg_likes_per_post a"
        "arg_liked_every a" ?w2]
    have r4: "r4 = Inl IndexError" by simp
    have sa: "fst (seed_all lib sch ev a ?w) = Inl IndexError"
      using su p r4 by (simp add: seed_all_unfold)
    then obtain w' where sa': "seed_all lib sch ev a ?w = (Inl IndexError, w')"
      by (cases "seed_all lib sch ev a ?w") simp
    have st: "status (main lib sch ev a d0) = Raised IndexError"
      using pe sa' by (simp add: main_def with_conn_def)
    moreover have "final_db (main lib sch ev a d0) = d0"
      using main_failed [of lib sch ev a d0] st by simp
    moreover have "stdout (main lib sch ev a d0) = []"
      using pe sa' by (simp add: main_def with_conn_def)
    ultimately show ?thesis by simp
  qed
  with sp [of bt bs lpp le w] show ?thesis by simp
qed

theorem seed_posts_empty_pool_witness:
  "1 \<le> arg_posts no_users_args \<and> path_exists demo_env \<and> arg_users no_users_args \<le> 0
   \<and> status (main demo_lib demo_schema demo_env no_users_args demo_db) = Raised IndexError
   \<and> final_db (main demo_lib demo_schema demo_env no_users_args demo_db) = demo_db"
proof -
  have h: "1 \<le> arg_posts no_users_args" by (simp add: no_users_args_def)
  show ?thesis
    using h seed_posts_empty_pool [OF h, of demo_lib demo_schema 0 "[]" 0 0
        "\<lparr>disk = demo_db, conn = demo_db, rng = 0\<rparr>" demo_env demo_db]
    by (simp add: no_users_args_def demo_env_def)
qed

lemma counter_floor_ge_stored: "counters d name = Some v \<Longrightarrow> v \<le> counter_floor d name m"
  by (simp add: counter_floor_def)

lemma sint_word_of_int_fits:
  "fits_int64 i \<Longrightarrow> sint (word_of_int i :: sqlite_integer) = i"
  by (simp add: fits_int64_def sint_sbintrunc' signed_take_bit_int_eq_self)

lemma upt_0_Suc_map: "[0..<Suc n] = 0 # map Suc [0..<n]"
proof -
  have "[0..<Suc n] = 0 # [Suc 0..<Suc n]" by (rule upt_conv_Cons) simp
  also have "[Suc 0..<Suc n] = map Suc [0..<n]" by (simp only: map_Suc_upt)
  finally show ?thesis .
qed

lemma gen_users_seqs:
  "map (\<lambda>r. fst (snd r)) (fst (gen_users lib idxs c g))
     = map (\<lambda>k. c + 1 + int k) [0..<length idxs]"
proof (induction idxs arbitrary: c g)
  case Nil
  show ?case by simp
next
  case (Cons j rest)
  obtain days1 g1 where d: "randint lib 0 90 g = (days1, g1)" by (cases "randint lib 0 90 g")
  have gen: "fst (gen_users lib (j # rest) c g) = (j, c + 1, days1) # fst (gen_users lib rest (c + 1) g1)"
    by (simp add: d split: prod.splits)
  have l: "[0..<length (j # rest)] = 0 # map Suc [0..<length rest]"
    by (simp only: length_Cons upt_0_Suc_map)
  show ?case
    unfolding gen l by (simp add: Cons.IH comp_def add.assoc del: upt_Suc)
qed

lemma gen_posts_seqs:
  "map (\<lambda>r. fst (snd r)) (fst (gen_posts lib us bs idxs c g))
     = map (\<lambda>k. c + 1 + int k) [0..<length idxs]"
proof (induction idxs arbitrary: c g)
  case Nil
  show ?case by simp
next
  case (Cons j rest)
  obtain rb g1 where b: "randbelow lib g (length bs) = (rb, g1)"
    by (cases "randbelow lib g (length bs)")
  obtain ra g2 where a: "randbelow lib g1 (length us) = (ra, g2)"
    by (cases "randbelow lib g1 (length us)")
  obtain days g3 where d: "randint lib 0 30 g2 = (days, g3)" by (cases "randint lib 0 30 g2")
  obtain secs g4 where s: "randint lib 0 86400 g3 = (secs, g4)"
    by (cases "randint lib 0 86400 g3")
  have gen: "fst (gen_posts lib us bs (j # rest) c g)
             = (j, c + 1, bs ! rb, us ! ra, days, secs) # fst (gen_posts lib us bs rest (c + 1) g4)"
    by (simp add: b a d s split: prod.splits)
  have l: "[0..<length (j # rest)] = 0 # map Suc [0..<length rest]"
    by (simp only: length_Cons upt_0_Suc_map)
  show ?case
    unfolding gen l by (simp add: Cons.IH comp_def add.assoc del: upt_Suc)
qed

lemma post_seq_new_post: "post_seq (new_post bt r) = word_of_int (fst (snd r))"
proof -
  obtain i seq bid author days secs where "r = (i, seq, bid, author, days, secs)"
    by (cases r) auto
  then show ?thesis by simp
qed

lemma inserted_user_seqs:
  assumes "status (main lib sch ev a d) = Exit 0"
  shows "map (\<lambda>r. sint (user_seq r)) (inserted_users d (seeded_db lib ev a d))
         = map (\<lambda>k. counter_floor d ''user'' (max_user_seq d) + 1 + int k)
             [0..<nat (arg_users a)]"
proof -
  have f: "\<forall>r \<in> set (fst (seeded_users lib a d)). fits_int64 (fst (snd r))"
    by (rule main_Exit_0(4) [OF assms])
  have "map (\<lambda>r. sint (user_seq r)) (inserted_users d (seeded_db lib ev a d))
        = map (\<lambda>r. sint (word_of_int (fst (snd r)) :: sqlite_integer))
            (fst (seeded_users lib a d))"
    by (simp add: inserted_users_seeded split_def comp_def)
  also have "\<dots> = map (\<lambda>r. fst (snd r)) (fst (seeded_users lib a d))"
    using f by (simp add: sint_word_of_int_fits)
  also have "\<dots> = map (\<lambda>k. counter_floor d ''user'' (max_user_seq d) + 1 + int k)
                     [0..<nat (arg_users a)]"
    unfolding seeded_users_def by (simp add: gen_users_seqs)
  finally show ?thesis .
qed

lemma inserted_post_seqs:
  assumes "status (main lib sch ev a d) = Exit 0"
  shows "map (\<lambda>r. sint (post_seq r)) (inserted_posts d (seeded_db lib ev a d))
         = map (\<lambda>k. counter_floor d ''post'' (max_post_seq d) + 1 + int k)
             [0..<nat (arg_posts a)]"
proof -
  have f: "\<forall>r \<in> set (fst (seeded_posts lib a d)). fits_int64 (fst (snd r))"
    by (rule main_Exit_0(5) [OF assms])
  have "map (\<lambda>r. sint (post_seq r)) (inserted_posts d (seeded_db lib ev a d))
        = map (\<lambda>r. sint (word_of_int (fst (snd r)) :: sqlite_integer))
            (fst (seeded_posts lib a d))"
    by (simp add: inserted_posts_seeded post_seq_new_post comp_def)
  also have "\<dots> = map (\<lambda>r. fst (snd r)) (fst (seeded_posts lib a d))"
    using f by (simp add: sint_word_of_int_fits)
  also have "\<dots> = map (\<lambda>k. counter_floor d ''post'' (max_post_seq d) + 1 + int k)
                     [0..<nat (arg_posts a)]"
    unfolding seeded_posts_def by (simp add: gen_posts_seqs)
  finally show ?thesis .
qed

lemma inserted_user_seq_bounds:
  assumes ok: "status (main lib sch ev a d) = Exit 0"
    and r: "r \<in> set (inserted_users d (seeded_db lib ev a d))"
  shows "counter_floor d ''user'' (max_user_seq d) < sint (user_seq r)
         \<and> sint (user_seq r) \<le> counter_floor d ''user'' (max_user_seq d) + int (nat (arg_users a))"
proof -
  from r have "sint (user_seq r)
      \<in> set (map (\<lambda>r. sint (user_seq r)) (inserted_users d (seeded_db lib ev a d)))"
    by simp
  then show ?thesis unfolding inserted_user_seqs [OF ok] by auto
qed

lemma inserted_post_seq_bounds:
  assumes ok: "status (main lib sch ev a d) = Exit 0"
    and r: "r \<in> set (inserted_posts d (seeded_db lib ev a d))"
  shows "counter_floor d ''post'' (max_post_seq d) < sint (post_seq r)
         \<and> sint (post_seq r) \<le> counter_floor d ''post'' (max_post_seq d) + int (nat (arg_posts a))"
proof -
  from r have "sint (post_seq r)
      \<in> set (map (\<lambda>r. sint (post_seq r)) (inserted_posts d (seeded_db lib ev a d)))"
    by simp
  then show ?thesis unfolding inserted_post_seqs [OF ok] by auto
qed

lemma user_seq_le_max: "r \<in> set (users d) \<Longrightarrow> sint (user_seq r) \<le> max_user_seq d"
  by (auto simp: max_user_seq_def intro!: Max_ge)

lemma post_seq_le_max: "r \<in> set (posts d) \<Longrightarrow> sint (post_seq r) \<le> max_post_seq d"
  by (auto simp: max_post_seq_def intro!: Max_ge)

lemma counter_floor_ge_max: "m \<le> counter_floor d name m"
  by (simp add: counter_floor_def split: option.splits)

lemma length_inserted_seeded:
  "length (inserted_users d (seeded_db lib ev a d)) = nat (arg_users a)"
  "length (inserted_posts d (seeded_db lib ev a d)) = nat (arg_posts a)"
  by (simp_all add: inserted_users_seeded inserted_posts_seeded seeded_users_def seeded_posts_def)

lemma seeded_db_counter_user:
  "counters (seeded_db lib ev a d) ''user''
     = Some (counter_floor d ''user'' (max_user_seq d) + int (nat (arg_users a)))"
  by (simp add: seeded_db_counters)

lemma seeded_db_counter_post:
  "counters (seeded_db lib ev a d) ''post''
     = Some (counter_floor d ''post'' (max_post_seq d) + int (nat (arg_posts a)))"
  by (simp add: seeded_db_counters)

lemma seeded_db_counters_mono:
  assumes "counters d name = Some v"
  shows "\<exists>v'. counters (seeded_db lib ev a d) name = Some v' \<and> v \<le> v'"
proof -
  have u: "name = ''user'' \<Longrightarrow> v \<le> counter_floor d ''user'' (max_user_seq d) + int (nat (arg_users a))"
    using counter_floor_ge_stored [of d "''user''" v "max_user_seq d"] assms by simp
  have p: "name = ''post'' \<Longrightarrow> v \<le> counter_floor d ''post'' (max_post_seq d) + int (nat (arg_posts a))"
    using counter_floor_ge_stored [of d "''post''" v "max_post_seq d"] assms by simp
  show ?thesis
    using u p assms by (simp add: seeded_db_counters)
qed

text \<open>A sequence number that \<^verbatim>\<open>next_counter\<close> returns beyond the largest \<^verbatim>\<open>INTEGER\<close> is
  never stored: the insert that binds it raises \<^verbatim>\<open>OverflowError\<close>, and the run is rolled
  back.\<close>

lemma main_counter_exhausted:
  assumes pe: "path_exists ev" and au: "1 \<le> arg_users a"
    and c: "counters d0 ''user'' = Some (2 ^ 63 - 1)"
  shows "status (main lib sch ev a d0) = Raised OverflowError"
    and "final_db (main lib sch ev a d0) = d0"
proof -
  let ?w = "\<lparr>disk = d0, conn = d0, rng = random_seed lib 42\<rparr>"
  let ?w2 = "?w\<lparr>conn := raise_counters d0\<rparr>"
  have "fits_int64 (max_user_seq d0)" by simp
  then have "max_user_seq d0 \<le> 2 ^ 63 - 1" by (simp add: fits_int64_def)
  then have cv: "counter_value (conn ?w2) ''user'' = 2 ^ 63 - 1"
    using c by (simp add: counter_floor_def)
  obtain days g1 where d: "randint lib 0 90 (rng ?w2) = (days, g1)"
    by (cases "randint lib 0 90 (rng ?w2)")
  have body: "fst (seed_users_body lib sch (now_seed_users ev) (now_run_id ev) 0 ?w2)
      = Inl OverflowError"
    unfolding seed_users_body_def next_counter_eq cv
    using d by (simp add: insert_users_def sqlite_add1_def fits_int64_def Let_def)
  from au have u: "[0..<nat (arg_users a)] = 0 # [Suc 0..<nat (arg_users a)]"
    by (simp add: upt_conv_Cons)
  obtain r w1 where b: "seed_users_body lib sch (now_seed_users ev) (now_run_id ev) 0 ?w2 = (r, w1)"
    by (cases "seed_users_body lib sch (now_seed_users ev) (now_run_id ev) 0 ?w2")
  with body have r: "r = Inl OverflowError" by simp
  have su: "fst (seed_users lib sch (now_seed_users ev) (arg_users a) (now_run_id ev) ?w2)
      = Inl OverflowError"
    using b by (simp add: seed_users_def u r)
  obtain r3 w3 where s3: "seed_users lib sch (now_seed_users ev) (arg_users a) (now_run_id ev) ?w2
      = (r3, w3)"
    by (cases "seed_users lib sch (now_seed_users ev) (arg_users a) (now_run_id ev) ?w2")
  with su have r3: "r3 = Inl OverflowError" by simp
  have sa: "fst (seed_all lib sch ev a ?w) = Inl OverflowError"
    using s3 r3 by (simp add: seed_all_unfold)
  then obtain w' where sa': "seed_all lib sch ev a ?w = (Inl OverflowError, w')"
    by (cases "seed_all lib sch ev a ?w") simp
  show st: "status (main lib sch ev a d0) = Raised OverflowError"
    using pe sa' by (simp add: main_def with_conn_def)
  show "final_db (main lib sch ev a d0) = d0"
    using main_failed [of lib sch ev a d0] st by simp
qed

text \<open>
  C2. After a successful run the counter \<^verbatim>\<open>user\<close> holds the larger of its value before
  the run and the largest \<^verbatim>\<open>seq\<close> among the rows of the users table before the run (that
  largest \<^verbatim>\<open>seq\<close> alone when the counter had no row, and 0 for an empty table), plus the
  number of user rows the run added; the same holds for \<^verbatim>\<open>post\<close> and the posts table.
  The rows added carry the sequence numbers that follow that starting value, one after
  the other, so each is larger than the \<^verbatim>\<open>seq\<close> of every row that was in the table. A
  later run on the resulting database, whatever its flags and whether it succeeds or
  not, lowers no counter, and the sequence numbers of the rows it adds are different
  from those of the rows added by the first run.
\<close>

theorem counters_after_seeding:
  fixes lib :: "'g random_lib" and lib2 :: "'h random_lib"
    and sch2 :: schema and ev2 :: env and a2 :: args
  assumes ok: "status (main lib sch ev a d0) = Exit 0"
  defines "d1 \<equiv> final_db (main lib sch ev a d0)"
  defines "d2 \<equiv> final_db (main lib2 sch2 ev2 a2 d1)"
  defines "mu \<equiv> (if users d0 = [] then 0
                  else Max (set (map (\<lambda>r. sint (user_seq r)) (users d0))))"
  defines "mp \<equiv> (if posts d0 = [] then 0
                  else Max (set (map (\<lambda>r. sint (post_seq r)) (posts d0))))"
  defines "cu \<equiv> (case counters d0 ''user'' of None \<Rightarrow> mu | Some v \<Rightarrow> max v mu)"
  defines "cp \<equiv> (case counters d0 ''post'' of None \<Rightarrow> mp | Some v \<Rightarrow> max v mp)"
  shows "counters d1 ''user'' = Some (cu + int (length (inserted_users d0 d1)))
    \<and> counters d1 ''post'' = Some (cp + int (length (inserted_posts d0 d1)))
    \<and> (\<forall>name v. counters d1 name = Some v \<longrightarrow> (\<exists>v'. counters d2 name = Some v' \<and> v \<le> v'))
    \<and> set (map user_seq (inserted_users d1 d2)) \<inter> set (map user_seq (inserted_users d0 d1)) = {}
    \<and> set (map post_seq (inserted_posts d1 d2)) \<inter> set (map post_seq (inserted_posts d0 d1)) = {}
    \<and> map (\<lambda>r. sint (user_seq r)) (inserted_users d0 d1)
        = map (\<lambda>k. cu + 1 + int k) [0..<length (inserted_users d0 d1)]
    \<and> map (\<lambda>r. sint (post_seq r)) (inserted_posts d0 d1)
        = map (\<lambda>k. cp + 1 + int k) [0..<length (inserted_posts d0 d1)]
    \<and> (\<forall>r \<in> set (users d0). \<forall>n \<in> set (inserted_users d0 d1).
          sint (user_seq r) < sint (user_seq n))
    \<and> (\<forall>r \<in> set (posts d0). \<forall>n \<in> set (inserted_posts d0 d1).
          sint (post_seq r) < sint (post_seq n))"
proof -
  have f1: "d1 = seeded_db lib ev a d0"
    unfolding d1_def by (rule main_Exit_0(1) [OF ok])
  have mu': "mu = max_user_seq d0" by (simp add: mu_def max_user_seq_def)
  have mp': "mp = max_post_seq d0" by (simp add: mp_def max_post_seq_def)
  have cu': "cu = counter_floor d0 ''user'' (max_user_seq d0)"
    unfolding cu_def mu' counter_floor_def by (rule refl)
  have cp': "cp = counter_floor d0 ''post'' (max_post_seq d0)"
    unfolding cp_def mp' counter_floor_def by (rule refl)
  have a: "counters d1 ''user'' = Some (cu + int (length (inserted_users d0 d1)))"
    unfolding f1 cu' by (simp add: seeded_db_counter_user length_inserted_seeded)
  have b: "counters d1 ''post'' = Some (cp + int (length (inserted_posts d0 d1)))"
    unfolding f1 cp' by (simp add: seeded_db_counter_post length_inserted_seeded)
  have c: "(\<forall>name v. counters d1 name = Some v \<longrightarrow> (\<exists>v'. counters d2 name = Some v' \<and> v \<le> v'))
    \<and> set (map user_seq (inserted_users d1 d2)) \<inter> set (map user_seq (inserted_users d0 d1)) = {}
    \<and> set (map post_seq (inserted_posts d1 d2)) \<inter> set (map post_seq (inserted_posts d0 d1)) = {}"
  proof (cases "status (main lib2 sch2 ev2 a2 d1) = Exit 0")
    case False
    then have "d2 = d1" unfolding d2_def by (rule main_failed)
    then show ?thesis by simp
  next
    case True
    have f2: "d2 = seeded_db lib2 ev2 a2 d1"
      unfolding d2_def by (rule main_Exit_0(1) [OF True])
    have mono: "\<forall>name v. counters d1 name = Some v \<longrightarrow> (\<exists>v'. counters d2 name = Some v' \<and> v \<le> v')"
      unfolding f2 using seeded_db_counters_mono by blast
    have su: "counters d1 ''user'' = Some (counter_floor d0 ''user'' (max_user_seq d0) + int (nat (arg_users a)))"
      unfolding f1 by (rule seeded_db_counter_user)
    have sp: "counters d1 ''post'' = Some (counter_floor d0 ''post'' (max_post_seq d0) + int (nat (arg_posts a)))"
      unfolding f1 by (rule seeded_db_counter_post)
    have du: "set (map user_seq (inserted_users d1 d2)) \<inter> set (map user_seq (inserted_users d0 d1)) = {}"
    proof (rule ccontr)
      assume "\<not> ?thesis"
      then obtain r2 r1 where r2: "r2 \<in> set (inserted_users d1 d2)"
        and r1: "r1 \<in> set (inserted_users d0 d1)" and e: "user_seq r2 = user_seq r1"
        by auto
      from inserted_user_seq_bounds [OF True r2 [unfolded f2]]
      have "counter_floor d1 ''user'' (max_user_seq d1) < sint (user_seq r2)" by simp
      moreover from inserted_user_seq_bounds [OF ok r1 [unfolded f1]]
      have "sint (user_seq r1) \<le> counter_floor d0 ''user'' (max_user_seq d0) + int (nat (arg_users a))"
        by simp
      moreover note counter_floor_ge_stored [OF su, of "max_user_seq d1"]
      ultimately show False using e by simp
    qed
    have dp: "set (map post_seq (inserted_posts d1 d2)) \<inter> set (map post_seq (inserted_posts d0 d1)) = {}"
    proof (rule ccontr)
      assume "\<not> ?thesis"
      then obtain r2 r1 where r2: "r2 \<in> set (inserted_posts d1 d2)"
        and r1: "r1 \<in> set (inserted_posts d0 d1)" and e: "post_seq r2 = post_seq r1"
        by auto
      from inserted_post_seq_bounds [OF True r2 [unfolded f2]]
      have "counter_floor d1 ''post'' (max_post_seq d1) < sint (post_seq r2)" by simp
      moreover from inserted_post_seq_bounds [OF ok r1 [unfolded f1]]
      have "sint (post_seq r1) \<le> counter_floor d0 ''post'' (max_post_seq d0) + int (nat (arg_posts a))"
        by simp
      moreover note counter_floor_ge_stored [OF sp, of "max_post_seq d1"]
      ultimately show False using e by simp
    qed
    from mono du dp show ?thesis by simp
  qed
  have su: "map (\<lambda>r. sint (user_seq r)) (inserted_users d0 d1)
        = map (\<lambda>k. cu + 1 + int k) [0..<length (inserted_users d0 d1)]"
    unfolding f1 cu' by (simp only: inserted_user_seqs [OF ok] length_inserted_seeded)
  have sp: "map (\<lambda>r. sint (post_seq r)) (inserted_posts d0 d1)
        = map (\<lambda>k. cp + 1 + int k) [0..<length (inserted_posts d0 d1)]"
    unfolding f1 cp' by (simp only: inserted_post_seqs [OF ok] length_inserted_seeded)
  have pu: "\<forall>r \<in> set (users d0). \<forall>n \<in> set (inserted_users d0 d1).
          sint (user_seq r) < sint (user_seq n)"
  proof (intro ballI)
    fix r n
    assume r: "r \<in> set (users d0)" and n: "n \<in> set (inserted_users d0 d1)"
    from user_seq_le_max [OF r] counter_floor_ge_max [of "max_user_seq d0" d0 "''user''"]
      inserted_user_seq_bounds [OF ok n [unfolded f1]]
    show "sint (user_seq r) < sint (user_seq n)" by simp
  qed
  have pp: "\<forall>r \<in> set (posts d0). \<forall>n \<in> set (inserted_posts d0 d1).
          sint (post_seq r) < sint (post_seq n)"
  proof (intro ballI)
    fix r n
    assume r: "r \<in> set (posts d0)" and n: "n \<in> set (inserted_posts d0 d1)"
    from post_seq_le_max [OF r] counter_floor_ge_max [of "max_post_seq d0" d0 "''post''"]
      inserted_post_seq_bounds [OF ok n [unfolded f1]]
    show "sint (post_seq r) < sint (post_seq n)" by simp
  qed
  from a b c su sp pu pp show ?thesis by simp
qed

lemma used_run_status: "status (main demo_lib demo_schema demo_env demo_args used_db) = Exit 0"
  by (simp add: run_defs demo_defs likes_defs used_db_def)

lemma used_run_final:
  "final_db (main demo_lib demo_schema demo_env demo_args used_db)
     = seeded_db demo_lib demo_env demo_args used_db"
  by (rule main_Exit_0(1) [OF used_run_status])

lemma used_run_lengths:
  "length (inserted_users used_db (final_db (main demo_lib demo_schema demo_env demo_args used_db))) = 2"
  "length (inserted_posts used_db (final_db (main demo_lib demo_schema demo_env demo_args used_db))) = 3"
  unfolding used_run_final by (simp_all add: length_inserted_seeded demo_args_def)

theorem counters_after_seeding_witness:
  "status (main demo_lib demo_schema demo_env demo_args used_db) = Exit 0
   \<and> map (\<lambda>r. sint (user_seq r)) (users used_db) = [2]
   \<and> counters used_db ''user'' = None
   \<and> counters (final_db (main demo_lib demo_schema demo_env demo_args used_db)) ''user'' = Some 4
   \<and> counters (final_db (main demo_lib demo_schema demo_env demo_args used_db)) ''post'' = Some 3
   \<and> map (\<lambda>r. sint (user_seq r))
       (inserted_users used_db (final_db (main demo_lib demo_schema demo_env demo_args used_db)))
       = [3, 4]
   \<and> (\<exists>v'. counters (final_db (main demo_lib demo_schema demo_env demo_args
                (final_db (main demo_lib demo_schema demo_env demo_args used_db)))) ''user''
              = Some v' \<and> 4 \<le> v')"
proof -
  have h: "status (main demo_lib demo_schema demo_env demo_args used_db) = Exit 0"
    by (rule used_run_status)
  have u: "map (\<lambda>r. sint (user_seq r)) (users used_db) = [2]"
    "posts used_db = []" "counters used_db ''user'' = None" "counters used_db ''post'' = None"
    by (simp_all add: used_db_def demo_db_def users_values_def)
  have ne: "users used_db \<noteq> []" by (simp add: used_db_def)
  have m: "Max (set (map (\<lambda>r. sint (user_seq r)) (users used_db))) = 2"
    by (simp add: u(1))
  have l: "map (\<lambda>k. 3 + int k) [0..<2] = [3, 4]"
    by (simp add: upt_conv_Cons)
  note t = counters_after_seeding [where ?lib2.0 = demo_lib and ?sch2.0 = demo_schema
        and ?ev2.0 = demo_env and ?a2.0 = demo_args, OF h]
  from t have c1:
    "counters (final_db (main demo_lib demo_schema demo_env demo_args used_db)) ''user'' = Some 4"
    by (simp add: used_run_lengths u ne m)
  from t have c2:
    "counters (final_db (main demo_lib demo_schema demo_env demo_args used_db)) ''post'' = Some 3"
    by (simp add: used_run_lengths u ne m)
  from t have c3: "map (\<lambda>r. sint (user_seq r))
       (inserted_users used_db (final_db (main demo_lib demo_schema demo_env demo_args used_db)))
       = [3, 4]"
    by (simp add: used_run_lengths u ne m l)
  from t c1 have c4: "\<exists>v'. counters (final_db (main demo_lib demo_schema demo_env demo_args
                (final_db (main demo_lib demo_schema demo_env demo_args used_db)))) ''user''
              = Some v' \<and> 4 \<le> v'"
    by blast
  from h u c1 c2 c3 c4 show ?thesis by simp
qed

lemma digit_char_inj:
  assumes "a < 10" "b < 10" "digit_char a = digit_char b"
  shows "a = b"
proof -
  have d: "distinct ''0123456789''" by simp
  have l: "length ''0123456789'' = 10" by simp
  from assms show ?thesis
    unfolding digit_char_def using nth_eq_iff_index_eq [OF d, of a b] l by simp
qed

lemma digit_char_not_minus: "n < 10 \<Longrightarrow> digit_char n \<noteq> CHR ''-''"
proof -
  assume "n < 10"
  then have "digit_char n \<in> set ''0123456789''"
    unfolding digit_char_def by (intro nth_mem) simp
  then show ?thesis by auto
qed

lemma digits_not_Nil: "digits n \<noteq> []"
  by (subst digits.simps) simp

lemma hd_digits_not_minus: "hd (digits n) \<noteq> CHR ''-''"
proof (induction n rule: digits.induct)
  case (1 n)
  show ?case
  proof (cases "n < 10")
    case True
    then show ?thesis by (subst digits.simps) (simp add: digit_char_not_minus)
  next
    case False
    with "1.IH" have "hd (digits (n div 10)) \<noteq> CHR ''-''" by simp
    with False show ?thesis
      by (subst digits.simps) (simp add: digits_not_Nil)
  qed
qed

lemma length_digits_ge_2: "\<not> n < 10 \<Longrightarrow> 2 \<le> length (digits n)"
proof -
  assume "\<not> n < 10"
  moreover have "1 \<le> length (digits (n div 10))"
    using digits_not_Nil [of "n div 10"] by (cases "digits (n div 10)") simp_all
  ultimately show ?thesis by (subst digits.simps) simp
qed

lemma digits_inj: "digits a = digits b \<Longrightarrow> a = b"
proof (induction a arbitrary: b rule: digits.induct)
  case (1 a)
  show ?case
  proof (cases "a < 10")
    case a: True
    show ?thesis
    proof (cases "b < 10")
      case True
      with a "1.prems" show ?thesis
        by (simp add: digits.simps [of a] digits.simps [of b] digit_char_inj)
    next
      case False
      from "1.prems" have "length (digits a) = length (digits b)" by simp
      moreover from a have "length (digits a) = 1" by (simp add: digits.simps [of a])
      ultimately show ?thesis using length_digits_ge_2 [OF False] by simp
    qed
  next
    case a: False
    show ?thesis
    proof (cases "b < 10")
      case True
      from "1.prems" have "length (digits a) = length (digits b)" by simp
      moreover from True have "length (digits b) = 1" by (simp add: digits.simps [of b])
      ultimately show ?thesis using length_digits_ge_2 [OF a] by simp
    next
      case False
      from "1.prems" a False
      have e: "digits (a div 10) = digits (b div 10)"
        and c: "digit_char (a mod 10) = digit_char (b mod 10)"
        by (simp_all add: digits.simps [of a] digits.simps [of b])
      from "1.IH" [OF a e] have "a div 10 = b div 10" .
      moreover from c have "a mod 10 = b mod 10" by (intro digit_char_inj) simp_all
      ultimately show ?thesis by (metis div_mult_mod_eq)
    qed
  qed
qed

lemma str_int_inj: "str_int a = str_int b \<Longrightarrow> a = b"
proof -
  assume e: "str_int a = str_int b"
  have m: "CHR ''-'' # digits x \<noteq> digits y" for x y
    using hd_digits_not_minus [of y] by (cases "digits y") auto
  show ?thesis
  proof (cases "a < 0")
    case a: True
    show ?thesis
    proof (cases "b < 0")
      case True
      with a e have "nat (- a) = nat (- b)" by (simp add: str_int_def digits_inj)
      with a True show ?thesis by simp
    next
      case False
      with a e m show ?thesis by (simp add: str_int_def)
    qed
  next
    case a: False
    show ?thesis
    proof (cases "b < 0")
      case True
      with a e m [of "nat (- b)" "nat a"] show ?thesis by (simp add: str_int_def)
    next
      case False
      with a e have "nat a = nat b" by (simp add: str_int_def digits_inj)
      with a False show ?thesis by simp
    qed
  qed
qed

lemma gen_posts_distinct_seq:
  "distinct (map (\<lambda>r. fst (snd r)) (fst (gen_posts lib us bs idxs c g)))"
proof (induction idxs arbitrary: c g)
  case Nil
  show ?case by simp
next
  case (Cons j rest)
  obtain rb g1 where b: "randbelow lib g (length bs) = (rb, g1)"
    by (cases "randbelow lib g (length bs)")
  obtain ra g2 where a: "randbelow lib g1 (length us) = (ra, g2)"
    by (cases "randbelow lib g1 (length us)")
  obtain days g3 where d: "randint lib 0 30 g2 = (days, g3)" by (cases "randint lib 0 30 g2")
  obtain secs g4 where s: "randint lib 0 86400 g3 = (secs, g4)"
    by (cases "randint lib 0 86400 g3")
  have e: "fst (gen_posts lib us bs (j # rest) c g)
      = (j, c + 1, bs ! rb, us ! ra, days, secs) # fst (gen_posts lib us bs rest (c + 1) g4)"
    by (simp add: b a d s split: prod.splits)
  have "c + 1 \<notin> set (map (\<lambda>r. fst (snd r)) (fst (gen_posts lib us bs rest (c + 1) g4)))"
  proof
    assume "c + 1 \<in> set (map (\<lambda>r. fst (snd r)) (fst (gen_posts lib us bs rest (c + 1) g4)))"
    then obtain i rest6 where "(i, c + 1, rest6) \<in> set (fst (gen_posts lib us bs rest (c + 1) g4))"
      by auto
    from gen_posts_seq_bounds [OF this] show False by simp
  qed
  with Cons.IH [of "c + 1" g4] show ?case unfolding e by simp
qed

lemma post_key_fst: "fst (post_key bt r) = ''p_'' @ str_int (fst (snd r))"
  by (cases r) (simp add: post_key_def new_post_def posts_values_def)

lemma distinct_post_ids:
  "distinct (map fst (map (post_key bt) (fst (gen_posts lib us bs idxs c g))))"
proof -
  have "map fst (map (post_key bt) (fst (gen_posts lib us bs idxs c g)))
        = map (\<lambda>s. ''p_'' @ str_int s) (map (\<lambda>r. fst (snd r)) (fst (gen_posts lib us bs idxs c g)))"
    by (simp add: post_key_fst)
  moreover have "inj_on (\<lambda>s. ''p_'' @ str_int s) A" for A
    by (rule inj_onI) (simp add: str_int_inj)
  ultimately show ?thesis
    using gen_posts_distinct_seq [of lib us bs idxs c g]
    by (simp add: distinct_map del: map_map)
qed

lemma enumerate_nth: "enumerate 0 xs = map (\<lambda>i. (i, xs ! i)) [0..<length xs]"
  by (rule nth_equalityI) (simp_all add: nth_enumerate_eq)

lemma like_rows_nonpositive: "luc \<le> 0 \<Longrightarrow> like_rows us luc p = []"
  by (simp add: like_rows_def)

lemma liked_index:
  assumes "i < nat count"
  shows "liked (set (py_range 0 count (max 1 le))) luc (i, p)
         \<longleftrightarrow> int i mod max 1 le = 0 \<and> 0 < luc"
proof -
  have "0 < max 1 le" by simp
  moreover from assms have "int i < count" by simp
  ultimately show ?thesis
    using in_set_py_range [of "max 1 le" "int i" 0 count] by (simp add: liked_def)
qed

lemma new_likes_blocks:
  assumes "length ps = nat count"
  shows "new_likes us (set (py_range 0 count (max 1 le))) luc (enumerate 0 ps)
         = concat (map (\<lambda>i. if int i mod max 1 le = 0 then like_rows us luc (ps ! i) else [])
                    [0..<length ps])"
proof -
  have "(if liked (set (py_range 0 count (max 1 le))) luc (i, ps ! i)
         then like_rows us luc (snd (i, ps ! i)) else [])
        = (if int i mod max 1 le = 0 then like_rows us luc (ps ! i) else [])"
    if "i \<in> set [0..<length ps]" for i
  proof -
    from that assms have "i < nat count" by simp
    from liked_index [OF this] show ?thesis
      by (cases "0 < luc") (simp_all add: like_rows_nonpositive)
  qed
  then show ?thesis
    unfolding new_likes_def enumerate_nth map_map comp_def
    by (intro arg_cong [where f = concat] map_cong refl) simp
qed

lemma liked_count:
  assumes "length ps = nat count" and "0 < luc"
  shows "length (filter (liked (set (py_range 0 count (max 1 le))) luc) (enumerate 0 ps))
         = length (filter (\<lambda>i. int i mod max 1 le = 0) [0..<length ps])"
proof -
  have "filter (\<lambda>i. liked (set (py_range 0 count (max 1 le))) luc (i, ps ! i)) [0..<length ps]
        = filter (\<lambda>i. int i mod max 1 le = 0) [0..<length ps]"
  proof (rule filter_cong [OF refl])
    fix i assume "i \<in> set [0..<length ps]"
    with assms have "i < nat count" by simp
    from liked_index [OF this] assms(2)
    show "liked (set (py_range 0 count (max 1 le))) luc (i, ps ! i) = (int i mod max 1 le = 0)"
      by simp
  qed
  then show ?thesis
    unfolding enumerate_nth filter_map comp_def by simp
qed

lemma concat_single_block:
  "j < n \<Longrightarrow> concat (map (\<lambda>i. if i = j then b else []) [0..<n]) = b"
proof (induction n)
  case 0
  then show ?case by simp
next
  case (Suc n)
  show ?case
  proof (cases "j = n")
    case True
    have "concat (map (\<lambda>i. if i = n then b else []) [0..<n]) = []"
      by (simp add: concat_eq_Nil_conv)
    with True show ?thesis by simp
  next
    case False
    with Suc.prems have "j < n" by simp
    from Suc.IH [OF this] False show ?thesis by simp
  qed
qed

lemma filter_blocks:
  assumes d: "distinct (map fst ps)" and j: "j < length ps"
  shows "filter (\<lambda>v. vote_post_id v = fst (ps ! j))
           (concat (map (\<lambda>i. if P i then like_rows us luc (ps ! i) else []) [0..<length ps]))
         = (if P j then like_rows us luc (ps ! j) else [])"
proof -
  have b: "filter (\<lambda>v. vote_post_id v = fst (ps ! j))
             (if P i then like_rows us luc (ps ! i) else [])
           = (if i = j then (if P j then like_rows us luc (ps ! j) else []) else [])"
    if "i \<in> set [0..<length ps]" for i
  proof (cases "i = j")
    case True
    then show ?thesis by (simp add: like_rows_def post_votes_values_def)
  next
    case False
    from that have "i < length ps" by simp
    with d j False have "fst (ps ! i) \<noteq> fst (ps ! j)"
      by (simp add: distinct_conv_nth)
    with False show ?thesis by (simp add: like_rows_def post_votes_values_def)
  qed
  have "filter (\<lambda>v. vote_post_id v = fst (ps ! j))
           (concat (map (\<lambda>i. if P i then like_rows us luc (ps ! i) else []) [0..<length ps]))
        = concat (map (\<lambda>i. if i = j then (if P j then like_rows us luc (ps ! j) else []) else [])
                   [0..<length ps])"
    unfolding filter_concat map_map comp_def
    by (intro arg_cong [where f = concat] map_cong refl) (rule b)
  also have "\<dots> = (if P j then like_rows us luc (ps ! j) else [])"
    by (rule concat_single_block [OF j])
  finally show ?thesis .
qed

lemma seed_posts_needs_users:
  assumes "seed_posts lib sch bt count us bs lpp le w = (Inr (ps, k), w')" and "us = []"
  shows "ps = []"
proof -
  let ?G = "gen_posts lib us bs [0..<nat count] (counter_value (conn w) ''post'') (rng w)"
  note s = seed_posts_Inr [OF assms(1)]
  have "fst ?G = []"
  proof (cases "fst ?G")
    case Nil
    then show ?thesis .
  next
    case (Cons r rest)
    obtain i seq bid author days secs where r: "r = (i, seq, bid, author, days, secs)"
      by (cases r)
    from s have "\<forall>x \<in> set (fst ?G).
        (case x of (i, seq, bid, author, days, seconds) \<Rightarrow> bid \<in> set bs \<and> author \<in> set us)"
      by simp
    with Cons have "case r of (i, seq, bid, author, days, seconds) \<Rightarrow>
        bid \<in> set bs \<and> author \<in> set us"
      by simp
    with r assms(2) show ?thesis by simp
  qed
  with s show ?thesis by simp
qed

lemma like_rows_eq:
  "like_rows us luc p = map (\<lambda>uid. post_votes_values (fst p) uid 1 (snd p)) (take (nat luc) us)"
  by (simp add: like_rows_def)

lemma seed_posts_likes:
  assumes ok: "seed_posts lib sch bt count us bs lpp le w = (Inr (ps, k), w')"
  shows "length ps = nat count"
    and "inserted_post_votes (conn w) (conn w')
         = concat (map (\<lambda>i. if int i mod max 1 le = 0
                              then like_rows us (min lpp (int (length us))) (ps ! i) else [])
                    [0..<length ps])"
    and "\<forall>i<length ps.
           filter (\<lambda>v. vote_post_id v = fst (ps ! i)) (inserted_post_votes (conn w) (conn w'))
           = (if int i mod max 1 le = 0
              then like_rows us (min lpp (int (length us))) (ps ! i) else [])"
    and "int (length us) < lpp \<longrightarrow>
           k = length (filter (\<lambda>i. int i mod max 1 le = 0) [0..<length ps])"
proof -
  let ?G = "gen_posts lib us bs [0..<nat count] (counter_value (conn w) ''post'') (rng w)"
  let ?L = "set (py_range 0 count (max 1 le))"
  let ?luc = "min lpp (int (length us))"
  note s = seed_posts_Inr [OF ok]
  from s have ps: "ps = map (post_key bt) (fst ?G)" by simp
  then show len: "length ps = nat count" by simp
  from s have "post_votes (conn w') = post_votes (conn w) @ new_likes us ?L ?luc (enumerate 0 ps)"
    by simp
  then have v: "inserted_post_votes (conn w) (conn w') = new_likes us ?L ?luc (enumerate 0 ps)"
    by (simp add: inserted_post_votes_def)
  show b: "inserted_post_votes (conn w) (conn w')
         = concat (map (\<lambda>i. if int i mod max 1 le = 0 then like_rows us ?luc (ps ! i) else [])
                    [0..<length ps])"
    unfolding v by (rule new_likes_blocks [OF len])
  have d: "distinct (map fst ps)"
    unfolding ps by (rule distinct_post_ids)
  show "\<forall>i<length ps.
           filter (\<lambda>v. vote_post_id v = fst (ps ! i)) (inserted_post_votes (conn w) (conn w'))
           = (if int i mod max 1 le = 0 then like_rows us ?luc (ps ! i) else [])"
  proof (intro allI impI)
    fix i
    assume "i < length ps"
    then show "filter (\<lambda>v. vote_post_id v = fst (ps ! i)) (inserted_post_votes (conn w) (conn w'))
           = (if int i mod max 1 le = 0 then like_rows us ?luc (ps ! i) else [])"
      unfolding b by (rule filter_blocks [OF d])
  qed
  show "int (length us) < lpp \<longrightarrow>
           k = length (filter (\<lambda>i. int i mod max 1 le = 0) [0..<length ps])"
  proof
    assume c: "int (length us) < lpp"
    from s have k: "k = length (filter (liked ?L ?luc) (enumerate 0 ps))" by simp
    show "k = length (filter (\<lambda>i. int i mod max 1 le = 0) [0..<length ps])"
    proof (cases "us = []")
      case True
      from seed_posts_needs_users [OF ok True] k show ?thesis by simp
    next
      case False
      with c have "0 < ?luc" by simp
      from liked_count [OF len this] k show ?thesis by simp
    qed
  qed
qed

lemma post_key_eq: "post_key bt r = (post_id (new_post bt r), post_created_at (new_post bt r))"
  by (simp add: post_key_def)

lemma main_likes:
  assumes ok: "status (main lib sch ev a d0) = Exit 0"
  defines "d1 \<equiv> final_db (main lib sch ev a d0)"
  defines "us \<equiv> map user_id (inserted_users d0 d1)"
  defines "ps \<equiv> map (\<lambda>p. (post_id p, post_created_at p)) (inserted_posts d0 d1)"
  defines "luc \<equiv> min (arg_likes_per_post a) (int (length us))"
  defines "step \<equiv> max 1 (arg_liked_every a)"
  shows "length ps = nat (arg_posts a)"
    and "inserted_post_votes d0 d1
         = concat (map (\<lambda>i. if int i mod step = 0 then like_rows us luc (ps ! i) else [])
                    [0..<length ps])"
    and "\<forall>i<length ps.
           filter (\<lambda>v. vote_post_id v = fst (ps ! i)) (inserted_post_votes d0 d1)
           = (if int i mod step = 0 then like_rows us luc (ps ! i) else [])"
    and "stdout (main lib sch ev a d0)
         = summary_line (length us) (length ps)
             (if 0 < luc then length (filter (\<lambda>i. int i mod step = 0) [0..<length ps]) else 0)
           # (if arg_likes_per_post a > int (length us) then [warning_line (length us)] else [])"
    and "ps \<noteq> [] \<longrightarrow> us \<noteq> []"
proof -
  let ?L = "set (py_range 0 (arg_posts a) (max 1 (arg_liked_every a)))"
  have f: "d1 = seeded_db lib ev a d0"
    unfolding d1_def by (rule main_Exit_0(1) [OF ok])
  have us: "us = seeded_user_ids lib a d0"
    unfolding us_def f by (rule seeded_user_ids_inserted [symmetric])
  have ps: "ps = map (post_key (now_seed_posts ev)) (fst (seeded_posts lib a d0))"
    unfolding ps_def f inserted_posts_seeded by (simp add: post_key_eq)
  show len: "length ps = nat (arg_posts a)"
    unfolding ps by (simp add: seeded_posts_def)
  have v: "inserted_post_votes d0 d1 = new_likes us ?L luc (enumerate 0 ps)"
    unfolding f inserted_post_votes_seeded seeded_likes_def luc_def us ps by simp
  show b: "inserted_post_votes d0 d1
         = concat (map (\<lambda>i. if int i mod step = 0 then like_rows us luc (ps ! i) else [])
                    [0..<length ps])"
    unfolding v step_def by (rule new_likes_blocks [OF len])
  have d: "distinct (map fst ps)"
    unfolding ps seeded_posts_def by (rule distinct_post_ids)
  show "\<forall>i<length ps.
           filter (\<lambda>v. vote_post_id v = fst (ps ! i)) (inserted_post_votes d0 d1)
           = (if int i mod step = 0 then like_rows us luc (ps ! i) else [])"
  proof (intro allI impI)
    fix i
    assume "i < length ps"
    then show "filter (\<lambda>v. vote_post_id v = fst (ps ! i)) (inserted_post_votes d0 d1)
           = (if int i mod step = 0 then like_rows us luc (ps ! i) else [])"
      unfolding b by (rule filter_blocks [OF d])
  qed
  have kk: "seeded_liked_posts lib ev a d0 = length (filter (liked ?L luc) (enumerate 0 ps))"
    unfolding seeded_liked_posts_def luc_def us ps by simp
  have k: "seeded_liked_posts lib ev a d0
           = (if 0 < luc then length (filter (\<lambda>i. int i mod step = 0) [0..<length ps]) else 0)"
  proof (cases "0 < luc")
    case True
    from liked_count [OF len True, of "arg_liked_every a"] True show ?thesis
      unfolding kk step_def by simp
  next
    case False
    then have "filter (liked ?L luc) (enumerate 0 ps) = []"
      by (simp add: liked_def)
    with False show ?thesis
      unfolding kk by simp
  qed
  have lu: "length (seeded_user_ids lib a d0) = length us" by (simp add: us)
  have lp: "length (fst (seeded_posts lib a d0)) = length ps" by (simp add: ps)
  show "stdout (main lib sch ev a d0)
         = summary_line (length us) (length ps)
             (if 0 < luc then length (filter (\<lambda>i. int i mod step = 0) [0..<length ps]) else 0)
           # (if arg_likes_per_post a > int (length us) then [warning_line (length us)] else [])"
    unfolding main_Exit_0(2) [OF ok] k lu lp by simp
  show "ps \<noteq> [] \<longrightarrow> us \<noteq> []"
  proof
    assume "ps \<noteq> []"
    then obtain r rest where c: "fst (seeded_posts lib a d0) = r # rest"
      unfolding ps by (cases "fst (seeded_posts lib a d0)") simp_all
    obtain i seq bid author days secs where r: "r = (i, seq, bid, author, days, secs)"
      by (cases r)
    from main_Exit_0(3) [OF ok] c
    have "case r of (i, seq, bid, author, days, seconds) \<Rightarrow>
        bid \<in> set (fetch_board_ids d0) \<and> author \<in> set (seeded_user_ids lib a d0)"
      by simp
    with r show "us \<noteq> []" unfolding us by auto
  qed
qed

lemma length_like_rows:
  "luc \<le> int (length us) \<Longrightarrow> length (like_rows us luc p) = nat luc"
  by (simp add: like_rows_def)

lemma main_no_likes:
  assumes "status (main lib sch ev a d0) = Exit 0" and "arg_likes_per_post a \<le> 0"
  shows "inserted_post_votes d0 (final_db (main lib sch ev a d0)) = []"
proof -
  have "min (arg_likes_per_post a) x \<le> 0" for x using assms(2) by simp
  then show ?thesis
    unfolding main_likes(2) [OF assms(1)] by (auto simp: like_rows_nonpositive)
qed

text \<open>
  C4, as amended. In a call of \<open>seed_posts\<close> that returns, every post whose 0-based
  index is a multiple of \<open>max 1 liked_every\<close> gets one like from each user of the prefix
  of \<open>user_ids\<close> of length \<open>min likes_per_post (length user_ids)\<close>, in that order, with the
  value 1 and the post's own timestamp; that prefix is empty when \<open>likes_per_post\<close> is
  zero or negative, so the number of likes is \<open>max 0 (min likes_per_post (length
  user_ids))\<close>. A post at any other index gets none. When \<open>likes_per_post\<close> exceeds the
  number of users the prefix is the whole pool and the count returned is the number of
  such indices; the run then prints the summary with that count and the warning with
  the number of users, and it prints only the summary otherwise.
\<close>

theorem likes_per_liked_post:
  assumes ok: "fst (seed_posts lib sch bt count us bs lpp le w) = Inr (ps, k)"
  shows "length ps = nat count
    \<and> (\<forall>i<length ps.
          filter (\<lambda>v. vote_post_id v = fst (ps ! i))
            (inserted_post_votes (conn w)
               (conn (snd (seed_posts lib sch bt count us bs lpp le w))))
          = (if int i mod max 1 le = 0
             then map (\<lambda>uid. post_votes_values (fst (ps ! i)) uid 1 (snd (ps ! i)))
                    (take (nat (min lpp (int (length us)))) us)
             else []))
    \<and> (int (length us) < lpp \<longrightarrow>
          take (nat (min lpp (int (length us)))) us = us
          \<and> k = length (filter (\<lambda>i. int i mod max 1 le = 0) [0..<length ps]))
    \<and> (status (main lib sch ev a d0) = Exit 0
        \<and> int (length (inserted_users d0 (final_db (main lib sch ev a d0))))
            < arg_likes_per_post a \<longrightarrow>
          stdout (main lib sch ev a d0)
          = [summary_line (length (inserted_users d0 (final_db (main lib sch ev a d0))))
               (length (inserted_posts d0 (final_db (main lib sch ev a d0))))
               (length (filter (\<lambda>i. int i mod max 1 (arg_liked_every a) = 0)
                  [0..<length (inserted_posts d0 (final_db (main lib sch ev a d0)))])),
             warning_line (length (inserted_users d0 (final_db (main lib sch ev a d0))))])
    \<and> (status (main lib sch ev a d0) = Exit 0
        \<and> arg_likes_per_post a
            \<le> int (length (inserted_users d0 (final_db (main lib sch ev a d0)))) \<longrightarrow>
          length (stdout (main lib sch ev a d0)) = 1)"
proof -
  obtain r w' where sp: "seed_posts lib sch bt count us bs lpp le w = (r, w')"
    by (cases "seed_posts lib sch bt count us bs lpp le w")
  with ok have sp': "seed_posts lib sch bt count us bs lpp le w = (Inr (ps, k), w')" by simp
  note l = seed_posts_likes [OF sp']
  have w': "snd (seed_posts lib sch bt count us bs lpp le w) = w'" by (simp add: sp)
  have p1: "length ps = nat count" by (rule l(1))
  have p2: "\<forall>i<length ps.
          filter (\<lambda>v. vote_post_id v = fst (ps ! i))
            (inserted_post_votes (conn w)
               (conn (snd (seed_posts lib sch bt count us bs lpp le w))))
          = (if int i mod max 1 le = 0
             then map (\<lambda>uid. post_votes_values (fst (ps ! i)) uid 1 (snd (ps ! i)))
                    (take (nat (min lpp (int (length us)))) us)
             else [])"
    unfolding w' using l(3) by (simp add: like_rows_eq)
  have p3: "int (length us) < lpp \<longrightarrow>
          take (nat (min lpp (int (length us)))) us = us
          \<and> k = length (filter (\<lambda>i. int i mod max 1 le = 0) [0..<length ps])"
    using l(4) by simp
  let ?d1 = "final_db (main lib sch ev a d0)"
  let ?nu = "length (inserted_users d0 ?d1)"
  let ?np = "length (inserted_posts d0 ?d1)"
  have p4: "stdout (main lib sch ev a d0)
          = [summary_line ?nu ?np
               (length (filter (\<lambda>i. int i mod max 1 (arg_liked_every a) = 0) [0..<?np])),
             warning_line ?nu]"
    if st: "status (main lib sch ev a d0) = Exit 0" and c: "int ?nu < arg_likes_per_post a"
  proof -
    note m = main_likes [OF st]
    show ?thesis
    proof (cases "?nu = 0")
      case True
      with m(5) have "?np = 0" by simp
      with True c show ?thesis unfolding m(4) by simp
    next
      case False
      with c have "0 < min (arg_likes_per_post a) (int ?nu)" by simp
      with c show ?thesis unfolding m(4) by simp
    qed
  qed
  have p5: "length (stdout (main lib sch ev a d0)) = 1"
    if st: "status (main lib sch ev a d0) = Exit 0" and c: "arg_likes_per_post a \<le> int ?nu"
    using c unfolding main_likes(4) [OF st] by simp
  from p1 p2 p3 p4 p5 show ?thesis by blast
qed

lemma demo_seed_posts:
  "fst (seed_posts demo_lib demo_schema 100 3 [''u_1'', ''u_2''] [''b_1''] 5 2 demo_world)
   = Inr ([(''p_1'', Rfc3339 (- 1295947)), (''p_2'', Rfc3339 (- 1641551)),
           (''p_3'', Rfc3339 (- 1987155))], 2)"
  by (simp add: run_defs demo_defs likes_defs demo_world_def str_int_def digits.simps
      digit_char_def rfc3339_def)

theorem likes_per_liked_post_witness:
  "fst (seed_posts demo_lib demo_schema 100 3 [''u_1'', ''u_2''] [''b_1''] 5 2 demo_world)
   = Inr ([(''p_1'', Rfc3339 (- 1295947)), (''p_2'', Rfc3339 (- 1641551)),
           (''p_3'', Rfc3339 (- 1987155))], 2)
   \<and> filter (\<lambda>v. vote_post_id v = ''p_1'')
        (inserted_post_votes (conn demo_world)
           (conn (snd (seed_posts demo_lib demo_schema 100 3 [''u_1'', ''u_2''] [''b_1''] 5 2
                         demo_world))))
      = [post_votes_values ''p_1'' ''u_1'' 1 (Rfc3339 (- 1295947)),
         post_votes_values ''p_1'' ''u_2'' 1 (Rfc3339 (- 1295947))]
   \<and> filter (\<lambda>v. vote_post_id v = ''p_2'')
        (inserted_post_votes (conn demo_world)
           (conn (snd (seed_posts demo_lib demo_schema 100 3 [''u_1'', ''u_2''] [''b_1''] 5 2
                         demo_world))))
      = []"
proof -
  note t = likes_per_liked_post [OF demo_seed_posts, of demo_env demo_args demo_db]
  from t have q: "\<forall>i<3.
          filter (\<lambda>v. vote_post_id v
                        = fst ([(''p_1'', Rfc3339 (- 1295947)), (''p_2'', Rfc3339 (- 1641551)),
                                (''p_3'', Rfc3339 (- 1987155))] ! i))
            (inserted_post_votes (conn demo_world)
               (conn (snd (seed_posts demo_lib demo_schema 100 3 [''u_1'', ''u_2''] [''b_1''] 5 2
                             demo_world))))
          = (if int i mod max 1 2 = 0
             then map (\<lambda>uid. post_votes_values
                       (fst ([(''p_1'', Rfc3339 (- 1295947)), (''p_2'', Rfc3339 (- 1641551)),
                              (''p_3'', Rfc3339 (- 1987155))] ! i)) uid 1
                       (snd ([(''p_1'', Rfc3339 (- 1295947)), (''p_2'', Rfc3339 (- 1641551)),
                              (''p_3'', Rfc3339 (- 1987155))] ! i)))
                    (take (nat (min 5 (int (length [''u_1'', ''u_2''])))) [''u_1'', ''u_2''])
             else [])"
    by simp
  from q [rule_format, of 0] q [rule_format, of 1] demo_seed_posts show ?thesis by simp
qed

theorem likes_per_liked_post_counterexample:
  "status (main demo_lib demo_schema demo_env negative_likes_args demo_db) = Exit 0
   \<and> length (inserted_posts demo_db
        (final_db (main demo_lib demo_schema demo_env negative_likes_args demo_db))) = 1
   \<and> (0::int) mod max 1 (arg_liked_every negative_likes_args) = 0
   \<and> inserted_post_votes demo_db
        (final_db (main demo_lib demo_schema demo_env negative_likes_args demo_db)) = []
   \<and> min (arg_likes_per_post negative_likes_args)
        (int (length (inserted_users demo_db
           (final_db (main demo_lib demo_schema demo_env negative_likes_args demo_db))))) = - 1"
proof -
  have h: "status (main demo_lib demo_schema demo_env negative_likes_args demo_db) = Exit 0"
    by (simp add: run_defs demo_defs likes_defs negative_likes_args_def)
  have f: "final_db (main demo_lib demo_schema demo_env negative_likes_args demo_db)
      = seeded_db demo_lib demo_env negative_likes_args demo_db"
    by (rule main_Exit_0(1) [OF h])
  have v: "inserted_post_votes demo_db
        (final_db (main demo_lib demo_schema demo_env negative_likes_args demo_db)) = []"
    by (rule main_no_likes [OF h]) (simp add: negative_likes_args_def)
  have n: "length (inserted_posts demo_db (seeded_db demo_lib demo_env negative_likes_args demo_db)) = 1"
    "length (inserted_users demo_db (seeded_db demo_lib demo_env negative_likes_args demo_db)) = 1"
    by (simp_all add: length_inserted_seeded negative_likes_args_def)
  from h v n show ?thesis
    unfolding f by (simp add: negative_likes_args_def)
qed

lemma multiple_of_5_below_20:
  "i < 20 \<Longrightarrow> int i mod max 1 5 = 0 \<longleftrightarrow> i \<in> {0, 5, 10, 15}"
proof -
  assume "i < 20"
  have "int i mod max 1 5 = 0 \<longleftrightarrow> i mod 5 = 0"
    by (simp add: zmod_int [symmetric] del: of_nat_mod) presburger
  also from \<open>i < 20\<close> have "\<dots> \<longleftrightarrow> i = 0 \<or> i = 5 \<or> i = 10 \<or> i = 15" by presburger
  finally show ?thesis by simp
qed

text \<open>
  C5, as amended. In a successful run with \<^verbatim>\<open>liked_every = 5\<close>, 20 requested posts and
  \<^verbatim>\<open>likes_per_post\<close> at least 1, the posts at the 0-based indices 0, 5, 10 and 15 are
  exactly the ones that receive like rows (each \<open>min likes_per_post users\<close> of them), and
  the other sixteen receive none.
\<close>

theorem liked_every_5_of_20:
  assumes ok: "status (main lib sch ev a d0) = Exit 0"
    and le: "arg_liked_every a = 5" and np: "arg_posts a = 20"
    and lpp: "1 \<le> arg_likes_per_post a"
  shows "length (inserted_posts d0 (final_db (main lib sch ev a d0))) = 20
    \<and> (\<forall>i<20.
          (filter (\<lambda>v. vote_post_id v
                         = post_id (inserted_posts d0 (final_db (main lib sch ev a d0)) ! i))
             (inserted_post_votes d0 (final_db (main lib sch ev a d0))) \<noteq> [])
          = (i \<in> {0, 5, 10, 15}))
    \<and> (\<forall>i\<in>{0, 5, 10, 15}.
          length (filter (\<lambda>v. vote_post_id v
                         = post_id (inserted_posts d0 (final_db (main lib sch ev a d0)) ! i))
             (inserted_post_votes d0 (final_db (main lib sch ev a d0))))
          = nat (min (arg_likes_per_post a)
                   (int (length (inserted_users d0 (final_db (main lib sch ev a d0)))))))"
proof -
  let ?d1 = "final_db (main lib sch ev a d0)"
  let ?us = "map user_id (inserted_users d0 ?d1)"
  let ?ps = "map (\<lambda>p. (post_id p, post_created_at p)) (inserted_posts d0 ?d1)"
  let ?luc = "min (arg_likes_per_post a) (int (length ?us))"
  note m = main_likes [OF ok]
  from m(1) np have len: "length (inserted_posts d0 ?d1) = 20" by simp
  then have "?ps \<noteq> []" by auto
  with m(5) have "?us \<noteq> []" by blast
  with lpp have luc: "1 \<le> ?luc" by (cases ?us) simp_all
  have rows: "length (like_rows ?us ?luc p) = nat ?luc" for p
    by (rule length_like_rows) simp
  have f: "filter (\<lambda>v. vote_post_id v = post_id (inserted_posts d0 ?d1 ! i))
             (inserted_post_votes d0 ?d1)
           = (if i \<in> {0, 5, 10, 15} then like_rows ?us ?luc (?ps ! i) else [])"
    if i: "i < 20" for i
  proof -
    from i len have "fst (?ps ! i) = post_id (inserted_posts d0 ?d1 ! i)" by simp
    moreover from m(3) i len
    have "filter (\<lambda>v. vote_post_id v = fst (?ps ! i)) (inserted_post_votes d0 ?d1)
          = (if int i mod max 1 (arg_liked_every a) = 0 then like_rows ?us ?luc (?ps ! i) else [])"
      by simp
    ultimately show ?thesis
      using multiple_of_5_below_20 [OF i] le by simp
  qed
  have ne: "like_rows ?us ?luc p \<noteq> []" for p
  proof -
    from luc have "0 < nat ?luc" by linarith
    then have "0 < length (like_rows ?us ?luc p)" unfolding rows .
    then show ?thesis by blast
  qed
  have a2: "\<forall>i<20.
          (filter (\<lambda>v. vote_post_id v = post_id (inserted_posts d0 ?d1 ! i))
             (inserted_post_votes d0 ?d1) \<noteq> [])
          = (i \<in> {0, 5, 10, 15})"
  proof (intro allI impI)
    fix i :: nat
    assume i: "i < 20"
    show "(filter (\<lambda>v. vote_post_id v = post_id (inserted_posts d0 ?d1 ! i))
             (inserted_post_votes d0 ?d1) \<noteq> [])
          = (i \<in> {0, 5, 10, 15})"
      unfolding f [OF i] using ne by (cases "i \<in> {0, 5, 10, 15}") simp_all
  qed
  have a3: "\<forall>i\<in>{0, 5, 10, 15}.
          length (filter (\<lambda>v. vote_post_id v = post_id (inserted_posts d0 ?d1 ! i))
             (inserted_post_votes d0 ?d1))
          = nat (min (arg_likes_per_post a) (int (length (inserted_users d0 ?d1))))"
  proof
    fix i :: nat
    assume i: "i \<in> {0, 5, 10, 15}"
    then have "i < 20" by auto
    from f [OF this] i rows show "length (filter (\<lambda>v. vote_post_id v
          = post_id (inserted_posts d0 ?d1 ! i)) (inserted_post_votes d0 ?d1))
          = nat (min (arg_likes_per_post a) (int (length (inserted_users d0 ?d1))))"
      by simp
  qed
  from len a2 a3 show ?thesis by blast
qed

lemma twenty_status: "status (main demo_lib demo_schema demo_env twenty_args demo_db) = Exit 0"
  by (simp add: run_defs demo_defs likes_defs twenty_args_def)

lemma twenty_no_likes_status:
  "status (main demo_lib demo_schema demo_env twenty_args_no_likes demo_db) = Exit 0"
  by (simp add: run_defs demo_defs likes_defs twenty_args_def twenty_args_no_likes_def)

theorem liked_every_5_of_20_witness:
  "status (main demo_lib demo_schema demo_env twenty_args demo_db) = Exit 0
   \<and> arg_liked_every twenty_args = 5 \<and> arg_posts twenty_args = 20
   \<and> 1 \<le> arg_likes_per_post twenty_args
   \<and> length (inserted_posts demo_db
        (final_db (main demo_lib demo_schema demo_env twenty_args demo_db))) = 20
   \<and> filter (\<lambda>v. vote_post_id v
              = post_id (inserted_posts demo_db
                  (final_db (main demo_lib demo_schema demo_env twenty_args demo_db)) ! 5))
        (inserted_post_votes demo_db
           (final_db (main demo_lib demo_schema demo_env twenty_args demo_db))) \<noteq> []
   \<and> filter (\<lambda>v. vote_post_id v
              = post_id (inserted_posts demo_db
                  (final_db (main demo_lib demo_schema demo_env twenty_args demo_db)) ! 6))
        (inserted_post_votes demo_db
           (final_db (main demo_lib demo_schema demo_env twenty_args demo_db))) = []"
proof -
  have h: "arg_liked_every twenty_args = 5" "arg_posts twenty_args = 20"
    "1 \<le> arg_likes_per_post twenty_args"
    by (simp_all add: twenty_args_def)
  note t = liked_every_5_of_20 [OF twenty_status h]
  from t have q: "\<forall>i<20.
          (filter (\<lambda>v. vote_post_id v
                         = post_id (inserted_posts demo_db
                  (final_db (main demo_lib demo_schema demo_env twenty_args demo_db)) ! i))
             (inserted_post_votes demo_db
           (final_db (main demo_lib demo_schema demo_env twenty_args demo_db))) \<noteq> [])
          = (i \<in> {0, 5, 10, 15})"
    by blast
  from t have l: "length (inserted_posts demo_db
        (final_db (main demo_lib demo_schema demo_env twenty_args demo_db))) = 20"
    by blast
  from q [rule_format, of 5] q [rule_format, of 6] l twenty_status h show ?thesis by simp
qed

theorem liked_every_5_of_20_counterexample:
  "status (main demo_lib demo_schema demo_env twenty_args_no_likes demo_db) = Exit 0
   \<and> arg_liked_every twenty_args_no_likes = 5 \<and> arg_posts twenty_args_no_likes = 20
   \<and> length (inserted_posts demo_db
        (final_db (main demo_lib demo_schema demo_env twenty_args_no_likes demo_db))) = 20
   \<and> inserted_post_votes demo_db
        (final_db (main demo_lib demo_schema demo_env twenty_args_no_likes demo_db)) = []"
proof -
  note h = twenty_no_likes_status
  have f: "final_db (main demo_lib demo_schema demo_env twenty_args_no_likes demo_db)
      = seeded_db demo_lib demo_env twenty_args_no_likes demo_db"
    by (rule main_Exit_0(1) [OF h])
  have v: "inserted_post_votes demo_db
        (final_db (main demo_lib demo_schema demo_env twenty_args_no_likes demo_db)) = []"
    by (rule main_no_likes [OF h]) (simp add: twenty_args_no_likes_def)
  have n: "length (inserted_posts demo_db
      (seeded_db demo_lib demo_env twenty_args_no_likes demo_db)) = 20"
    by (simp add: length_inserted_seeded twenty_args_no_likes_def twenty_args_def)
  from h v n show ?thesis
    unfolding f by (simp add: twenty_args_no_likes_def twenty_args_def)
qed

lemma inserted_accounts_seeded:
  "inserted_accounts d0 (seeded_db lib ev a d0) =
     map (\<lambda>(i, seq, days). new_account (now_run_id ev) i seq) (fst (seeded_users lib a d0))"
  by (simp add: inserted_accounts_def seeded_db_accounts)

lemma new_user_shift:
  "new_user bt2 i seq days
   = (new_user bt1 i seq days)
       \<lparr>user_created_at := shift_timestamp (bt2 - bt1) (user_created_at (new_user bt1 i seq days))\<rparr>"
  by (simp add: new_user_def users_values_def rfc3339_def shift_timestamp_def)

lemma new_post_shift:
  "new_post bt2 r
   = (new_post bt1 r)
       \<lparr>post_created_at := shift_timestamp (bt2 - bt1) (post_created_at (new_post bt1 r))\<rparr>"
  by (cases r) (simp add: new_post_def posts_values_def rfc3339_def shift_timestamp_def)

lemma like_rows_shift:
  "like_rows us luc (post_key bt2 r)
   = map (\<lambda>v. v\<lparr>vote_created_at := shift_timestamp (bt2 - bt1) (vote_created_at v)\<rparr>)
       (like_rows us luc (post_key bt1 r))"
  by (cases r)
    (simp add: like_rows_def post_key_def new_post_def posts_values_def post_votes_values_def
      rfc3339_def shift_timestamp_def)

lemma new_likes_shift:
  "new_likes us L luc (enumerate n (map (post_key bt2) rows))
   = map (\<lambda>v. v\<lparr>vote_created_at := shift_timestamp (bt2 - bt1) (vote_created_at v)\<rparr>)
       (new_likes us L luc (enumerate n (map (post_key bt1) rows)))"
proof (induction rows arbitrary: n)
  case Nil
  show ?case by (simp add: new_likes_def)
next
  case (Cons r rest)
  have l: "liked L luc (n, post_key bt2 r) = liked L luc (n, post_key bt1 r)"
    by (simp add: liked_def)
  have c: "new_likes us L luc ((n, p) # xs)
           = (if liked L luc (n, p) then like_rows us luc p else []) @ new_likes us L luc xs"
    for p xs
    by (simp add: new_likes_def)
  show ?case
    using Cons.IH [of "Suc n"] like_rows_shift [of us luc bt2 r bt1]
    by (simp add: c l)
qed

lemma later_run_status: "status (main demo_lib demo_schema later_env demo_args demo_db) = Exit 0"
  by (simp add: run_defs demo_defs likes_defs later_env_def)

text \<open>
  C9, as amended. Two successful runs with the same flags on the same database, with
  the same generator seeded with 42, make the same draws: one day offset for each
  user, then for each post in generation order a board, an author, a day offset and a
  second offset (\<open>seeded_users\<close> and \<open>seeded_posts\<close> do not depend on the clock). They
  leave the same counters and boards, print the same lines, and insert rows that
  agree except in what comes from the wall clock: the run identifier inside the
  account names, and the \<^verbatim>\<open>created_at\<close> values of users, posts and likes, which are
  shifted by the difference between the base times of the two runs.
\<close>

theorem runs_differ_only_by_clock:
  fixes lib :: "'g random_lib"
  assumes okA: "status (main lib sch evA a d0) = Exit 0"
    and okB: "status (main lib sch evB a d0) = Exit 0"
  defines "dA \<equiv> final_db (main lib sch evA a d0)"
  defines "dB \<equiv> final_db (main lib sch evB a d0)"
  shows "inserted_users d0 dA
           = map (\<lambda>(i, seq, days). new_user (now_seed_users evA) i seq days)
               (fst (seeded_users lib a d0))
    \<and> inserted_posts d0 dA
           = map (new_post (now_seed_posts evA)) (fst (seeded_posts lib a d0))
    \<and> counters dB = counters dA \<and> boards dB = boards dA
    \<and> stdout (main lib sch evB a d0) = stdout (main lib sch evA a d0)
    \<and> inserted_users d0 dB
           = map (\<lambda>u. u\<lparr>user_created_at :=
                          shift_timestamp (now_seed_users evB - now_seed_users evA)
                            (user_created_at u)\<rparr>)
               (inserted_users d0 dA)
    \<and> inserted_posts d0 dB
           = map (\<lambda>p. p\<lparr>post_created_at :=
                          shift_timestamp (now_seed_posts evB - now_seed_posts evA)
                            (post_created_at p)\<rparr>)
               (inserted_posts d0 dA)
    \<and> inserted_post_votes d0 dB
           = map (\<lambda>v. v\<lparr>vote_created_at :=
                          shift_timestamp (now_seed_posts evB - now_seed_posts evA)
                            (vote_created_at v)\<rparr>)
               (inserted_post_votes d0 dA)
    \<and> map account_user_id (inserted_accounts d0 dB)
           = map account_user_id (inserted_accounts d0 dA)
    \<and> map account_password_hash (inserted_accounts d0 dB)
           = map account_password_hash (inserted_accounts d0 dA)
    \<and> map account_name (inserted_accounts d0 dA)
           = map (\<lambda>i. ''seed_'' @ now_run_id evA @ ''_'' @ format_03d (int i + 1))
               [0..<nat (arg_users a)]
    \<and> map account_name (inserted_accounts d0 dB)
           = map (\<lambda>i. ''seed_'' @ now_run_id evB @ ''_'' @ format_03d (int i + 1))
               [0..<nat (arg_users a)]"
proof -
  have fA: "dA = seeded_db lib evA a d0"
    unfolding dA_def by (rule main_Exit_0(1) [OF okA])
  have fB: "dB = seeded_db lib evB a d0"
    unfolding dB_def by (rule main_Exit_0(1) [OF okB])
  have uA: "inserted_users d0 dA
           = map (\<lambda>(i, seq, days). new_user (now_seed_users evA) i seq days)
               (fst (seeded_users lib a d0))"
    unfolding fA by (rule inserted_users_seeded)
  have pA: "inserted_posts d0 dA
           = map (new_post (now_seed_posts evA)) (fst (seeded_posts lib a d0))"
    unfolding fA by (rule inserted_posts_seeded)
  have c: "counters dB = counters dA"
    unfolding fA fB seeded_db_counters ..
  have b: "boards dB = boards dA"
    unfolding fA fB seeded_db_boards ..
  have uB: "inserted_users d0 dB
           = map (\<lambda>u. u\<lparr>user_created_at :=
                          shift_timestamp (now_seed_users evB - now_seed_users evA)
                            (user_created_at u)\<rparr>)
               (inserted_users d0 dA)"
    unfolding uA unfolding fB inserted_users_seeded map_map comp_def
    by (intro map_cong refl)
      (simp add: split_def new_user_shift [of "now_seed_users evB" _ _ _ "now_seed_users evA"])
  have pB: "inserted_posts d0 dB
           = map (\<lambda>p. p\<lparr>post_created_at :=
                          shift_timestamp (now_seed_posts evB - now_seed_posts evA)
                            (post_created_at p)\<rparr>)
               (inserted_posts d0 dA)"
    unfolding pA unfolding fB inserted_posts_seeded map_map comp_def
    by (intro map_cong refl)
      (rule new_post_shift [of "now_seed_posts evB" _ "now_seed_posts evA"])
  have vB: "inserted_post_votes d0 dB
           = map (\<lambda>v. v\<lparr>vote_created_at :=
                          shift_timestamp (now_seed_posts evB - now_seed_posts evA)
                            (vote_created_at v)\<rparr>)
               (inserted_post_votes d0 dA)"
    unfolding fA fB inserted_post_votes_seeded seeded_likes_def
    by (rule new_likes_shift)
  have aid: "map account_user_id (inserted_accounts d0 dB)
           = map account_user_id (inserted_accounts d0 dA)"
    unfolding fA fB inserted_accounts_seeded
    by (simp add: split_def new_account_def accounts_values_def)
  have aph: "map account_password_hash (inserted_accounts d0 dB)
           = map account_password_hash (inserted_accounts d0 dA)"
    unfolding fA fB inserted_accounts_seeded
    by (simp add: split_def new_account_def accounts_values_def)
  have idx: "map fst (fst (gen_users lib idxs cv g)) = idxs" for idxs cv g
  proof (induction idxs arbitrary: cv g)
    case Nil
    show ?case by simp
  next
    case (Cons i rest)
    obtain days g1 where d: "randint lib 0 90 g = (days, g1)" by (cases "randint lib 0 90 g")
    from Cons [of "cv + 1" g1] show ?case by (auto simp: d split: prod.splits)
  qed
  have an: "map account_name (inserted_accounts d0 (seeded_db lib ev a d0))
           = map (\<lambda>i. ''seed_'' @ now_run_id ev @ ''_'' @ format_03d (int i + 1))
               [0..<nat (arg_users a)]" for ev
  proof -
    have "map account_name (inserted_accounts d0 (seeded_db lib ev a d0))
          = map (\<lambda>i. ''seed_'' @ now_run_id ev @ ''_'' @ format_03d (int i + 1))
              (map fst (fst (seeded_users lib a d0)))"
      unfolding inserted_accounts_seeded
      by (simp add: split_def new_account_def accounts_values_def)
    then show ?thesis unfolding seeded_users_def idx .
  qed
  have lu: "length (inserted_users d0 dB) = length (inserted_users d0 dA)"
    unfolding uB by simp
  have lp: "length (inserted_posts d0 dB) = length (inserted_posts d0 dA)"
    unfolding pB by simp
  have out: "stdout (main lib sch evB a d0) = stdout (main lib sch evA a d0)"
    unfolding main_likes(4) [OF okA] main_likes(4) [OF okB]
    using lu lp unfolding dA_def dB_def by simp
  from uA pA c b out uB pB vB aid aph an [of evA] an [of evB] show ?thesis
    unfolding fA fB by blast
qed

theorem runs_differ_only_by_clock_witness:
  "status (main demo_lib demo_schema demo_env demo_args demo_db) = Exit 0
   \<and> status (main demo_lib demo_schema later_env demo_args demo_db) = Exit 0
   \<and> map post_board_id (inserted_posts demo_db
        (final_db (main demo_lib demo_schema later_env demo_args demo_db)))
     = map post_board_id (inserted_posts demo_db
        (final_db (main demo_lib demo_schema demo_env demo_args demo_db)))
   \<and> map post_author_id (inserted_posts demo_db
        (final_db (main demo_lib demo_schema later_env demo_args demo_db)))
     = map post_author_id (inserted_posts demo_db
        (final_db (main demo_lib demo_schema demo_env demo_args demo_db)))
   \<and> map account_name (inserted_accounts demo_db
        (final_db (main demo_lib demo_schema later_env demo_args demo_db)))
     = [''seed_20240101000010_001'', ''seed_20240101000010_002'']"
proof -
  note t = runs_differ_only_by_clock [OF demo_run_status later_run_status]
  have f: "map (\<lambda>i. ''seed_'' @ now_run_id later_env @ ''_'' @ format_03d (int i + 1))
             [0..<nat (arg_users demo_args)]
           = [''seed_20240101000010_001'', ''seed_20240101000010_002'']"
    by (simp add: later_env_def demo_args_def upt_conv_Cons format_03d_def digits.simps
        digit_char_def numeral_2_eq_2)
  from t have p: "inserted_posts demo_db
        (final_db (main demo_lib demo_schema later_env demo_args demo_db))
     = map (\<lambda>p. p\<lparr>post_created_at :=
                          shift_timestamp (now_seed_posts later_env - now_seed_posts demo_env)
                            (post_created_at p)\<rparr>)
               (inserted_posts demo_db
        (final_db (main demo_lib demo_schema demo_env demo_args demo_db)))"
    by blast
  from t have n: "map account_name (inserted_accounts demo_db
        (final_db (main demo_lib demo_schema later_env demo_args demo_db)))
     = map (\<lambda>i. ''seed_'' @ now_run_id later_env @ ''_'' @ format_03d (int i + 1))
             [0..<nat (arg_users demo_args)]"
    by blast
  show ?thesis
    unfolding n f unfolding p using demo_run_status later_run_status
    by (simp add: comp_def)
qed

theorem runs_differ_only_by_clock_counterexample:
  "status (main demo_lib demo_schema demo_env demo_args demo_db) = Exit 0
   \<and> status (main demo_lib demo_schema later_env demo_args demo_db) = Exit 0
   \<and> map user_created_at (users (final_db (main demo_lib demo_schema demo_env demo_args demo_db)))
       = [Rfc3339 1700438400, Rfc3339 1700352000]
   \<and> map user_created_at (users (final_db (main demo_lib demo_schema later_env demo_args demo_db)))
       = [Rfc3339 1700438410, Rfc3339 1700352010]
   \<and> users (final_db (main demo_lib demo_schema demo_env demo_args demo_db))
       \<noteq> users (final_db (main demo_lib demo_schema later_env demo_args demo_db))"
proof -
  have fA: "final_db (main demo_lib demo_schema demo_env demo_args demo_db)
      = seeded_db demo_lib demo_env demo_args demo_db"
    by (rule main_Exit_0(1) [OF demo_run_status])
  have fB: "final_db (main demo_lib demo_schema later_env demo_args demo_db)
      = seeded_db demo_lib later_env demo_args demo_db"
    by (rule main_Exit_0(1) [OF later_run_status])
  have rows: "fst (seeded_users demo_lib demo_args demo_db) = [(0, 1, 42), (1, 2, 43)]"
    by (simp add: seeded_users_def demo_args_def demo_lib_def demo_db_def upt_conv_Cons
        randint_def counter_floor_def max_user_seq_def)
  have a: "map user_created_at (users (seeded_db demo_lib demo_env demo_args demo_db))
       = [Rfc3339 1700438400, Rfc3339 1700352000]"
    unfolding seeded_db_users rows
    by (simp add: demo_db_def demo_env_def new_user_def users_values_def rfc3339_def)
  have b: "map user_created_at (users (seeded_db demo_lib later_env demo_args demo_db))
       = [Rfc3339 1700438410, Rfc3339 1700352010]"
    unfolding seeded_db_users rows
    by (simp add: demo_db_def later_env_def new_user_def users_values_def rfc3339_def)
  from a b have "users (seeded_db demo_lib demo_env demo_args demo_db)
       \<noteq> users (seeded_db demo_lib later_env demo_args demo_db)"
    by auto
  with a b demo_run_status later_run_status show ?thesis
    unfolding fA fB by simp
qed

end
